theory Spec2Isabelle
  imports Main "HOL-Library.Sublist"
begin

section \<open>Superflush: the cleanup core of main.py\<close>

text \<open>
  The three core operations of \<^verbatim>\<open>src/main.py\<close> (\<^verbatim>\<open>flush_dns\<close>,
  \<^verbatim>\<open>clear_browser_data\<close>, \<^verbatim>\<open>sign_out_services\<close>) and their helpers
  (\<^verbatim>\<open>is_admin\<close>, \<^verbatim>\<open>log_error\<close>) talk to the operating system only.  The
  embedding makes that environment an explicit record, \<open>world\<close>: every function takes
  the world and returns what Python would return or raise, together with the world it
  leaves behind.  A raised exception is \<open>Inl\<close>, a returned value is \<open>Inr\<close>; the world
  is returned on both branches because commands already run and files already deleted
  stay that way when an exception unwinds.
\<close>

subsection \<open>Exceptions and Python values\<close>

text \<open>
  Every class below is a subclass of Python's \<^verbatim>\<open>Exception\<close>, so every
  \<^verbatim>\<open>except Exception\<close> clause of the source catches every \<open>exn\<close>.  The string is
  what \<^verbatim>\<open>str(e)\<close> (and so the f-string \<^verbatim>\<open>{e}\<close>) gives.
\<close>

datatype exn_class =
  PermissionError | RuntimeError | CalledProcessError | FileNotFoundError
  | IsADirectoryError | NotADirectoryError | OSError | AttributeError

datatype exn = Exn exn_class string

fun str :: "exn \<Rightarrow> string" where
  "str (Exn c m) = m"

text \<open>
  \<^verbatim>\<open>is_admin\<close> returns the C integer of \<^verbatim>\<open>IsUserAnAdmin()\<close> unconverted on
  Windows and a \<^verbatim>\<open>bool\<close> elsewhere; \<^verbatim>\<open>not is_admin()\<close> reads its truth value.
\<close>

datatype pyval = PyBool bool | PyInt int

fun truthy :: "pyval \<Rightarrow> bool" where
  "truthy (PyBool b) = b"
| "truthy (PyInt i) = (i \<noteq> 0)"

subsection \<open>The environment\<close>

text \<open>
  A path is its list of components, so \<^verbatim>\<open>os.path.join(path, entry)\<close> is
  \<open>path @ [entry]\<close> and "under \<open>p\<close>" is \<open>prefix p\<close>.  The file system is an association
  list from paths to node kinds (finite, so that \<^verbatim>\<open>os.listdir\<close> can enumerate it).
\<close>

type_synonym path = "string list"

datatype node = File | Dir

text \<open>
  The fields, in the order of their use in the source:
  \<^item> \<open>os_name\<close> is \<^verbatim>\<open>os.name\<close>, \<open>system\<close> is \<^verbatim>\<open>platform.system()\<close>;
  \<^item> \<open>admin_query\<close> is what \<^verbatim>\<open>ctypes.windll.shell32.IsUserAnAdmin()\<close> does: raise, or
    return an integer;
  \<^item> \<open>geteuid\<close> is \<^verbatim>\<open>os.geteuid()\<close>, \<open>None\<close> where \<^verbatim>\<open>hasattr(os, "geteuid")\<close> is false;
  \<^item> \<open>home\<close> is what \<^verbatim>\<open>os.path.expanduser\<close> puts for the leading \<^verbatim>\<open>~\<close>;
  \<^item> \<open>fs\<close> is the file system; \<open>delete_fault p\<close> is the exception that unlinking \<open>p\<close>
    raises (\<open>None\<close>: the unlink succeeds), \<open>listdir_fault p\<close> the one that listing the
    directory \<open>p\<close> raises;
  \<^item> \<open>run_result cmd\<close> is what launching the external command \<open>cmd\<close> does: fail to launch
    with an exception, or exit with a status; \<open>cpe_str cmd rc\<close> is the library's
    \<^verbatim>\<open>str(CalledProcessError(rc, cmd))\<close>; \<open>invoked\<close> is the trace of the commands
    handed to \<^verbatim>\<open>subprocess\<close> so far;
  \<^item> \<open>log_lines\<close> are the lines of \<^verbatim>\<open>superflush.log\<close>, \<open>log_fault\<close> the exception
    that opening or writing that file raises (\<open>None\<close>: the append succeeds).
\<close>

record world =
  os_name :: string
  system :: string
  admin_query :: "exn + int"
  geteuid :: "nat option"
  home :: path
  fs :: "(path \<times> node) list"
  delete_fault :: "path \<Rightarrow> exn option"
  listdir_fault :: "path \<Rightarrow> exn option"
  run_result :: "string list \<Rightarrow> exn + int"
  cpe_str :: "string list \<Rightarrow> int \<Rightarrow> string"
  invoked :: "string list list"
  log_lines :: "string list"
  log_fault :: "exn option"

subsection \<open>Library calls\<close>

definition lookup :: "world \<Rightarrow> path \<Rightarrow> node option" where
  "lookup w p = map_of (fs w) p"

text \<open>\<^verbatim>\<open>os.path.exists\<close> and \<^verbatim>\<open>os.path.isdir\<close> never raise.\<close>

definition exists :: "world \<Rightarrow> path \<Rightarrow> bool" where
  "exists w p = (lookup w p \<noteq> None)"

definition isdir :: "world \<Rightarrow> path \<Rightarrow> bool" where
  "isdir w p = (lookup w p = Some Dir)"

definition fs_drop :: "(path \<Rightarrow> bool) \<Rightarrow> world \<Rightarrow> world" where
  "fs_drop P w = w\<lparr>fs := filter (\<lambda>(q, n). \<not> P q) (fs w)\<rparr>"

text \<open>
  \<^verbatim>\<open>os.remove(p)\<close>: raises on a missing path and on a directory, raises the
  environment's fault on a file that cannot be unlinked, and removes the file otherwise.
  (The detail texts of the two fixed exceptions are shortened: Python adds the errno and
  the path.)
\<close>

definition os_remove :: "path \<Rightarrow> world \<Rightarrow> (exn + unit) \<times> world" where
  "os_remove p w =
     (case lookup w p of
        None \<Rightarrow> (Inl (Exn FileNotFoundError ''No such file or directory''), w)
      | Some Dir \<Rightarrow> (Inl (Exn IsADirectoryError ''Is a directory''), w)
      | Some File \<Rightarrow>
          (case delete_fault w p of
             Some e \<Rightarrow> (Inl e, w)
           | None \<Rightarrow> (Inr (), fs_drop (\<lambda>q. q = p) w)))"

text \<open>
  \<^verbatim>\<open>shutil.rmtree(p, ignore_errors=True)\<close> never raises.  On a directory it removes
  every entry at or below \<open>p\<close> that is not stuck; an entry is stuck when it, or something
  below it, cannot be unlinked.  On anything else it changes nothing.
\<close>

definition stuck :: "world \<Rightarrow> path \<Rightarrow> bool" where
  "stuck w q = list_ex (\<lambda>(r, n). prefix q r \<and> delete_fault w r \<noteq> None) (fs w)"

definition rmtree :: "path \<Rightarrow> world \<Rightarrow> world" where
  "rmtree p w = (if isdir w p then fs_drop (\<lambda>q. prefix p q \<and> \<not> stuck w q) w else w)"

text \<open>\<^verbatim>\<open>os.listdir(p)\<close>: the names directly under \<open>p\<close>, or an exception.\<close>

definition listdir :: "world \<Rightarrow> path \<Rightarrow> exn + string list" where
  "listdir w p =
     (case lookup w p of
        None \<Rightarrow> Inl (Exn FileNotFoundError ''No such file or directory'')
      | Some File \<Rightarrow> Inl (Exn NotADirectoryError ''Not a directory'')
      | Some Dir \<Rightarrow>
          (case listdir_fault w p of
             Some e \<Rightarrow> Inl e
           | None \<Rightarrow>
               Inr (map (\<lambda>(q, n). last q)
                      (filter (\<lambda>(q, n). q \<noteq> [] \<and> butlast q = p) (fs w)))))"

text \<open>
  \<^verbatim>\<open>subprocess.run(cmd, capture_output=True)\<close> raises only when the command cannot be
  launched and returns the exit status otherwise; \<^verbatim>\<open>subprocess.check_call(cmd)\<close>
  raises \<^verbatim>\<open>CalledProcessError\<close> on a nonzero status as well.  Both record the command
  in \<open>invoked\<close>.
\<close>

definition subprocess_run :: "string list \<Rightarrow> world \<Rightarrow> (exn + int) \<times> world" where
  "subprocess_run cmd w =
     (let w1 = w\<lparr>invoked := invoked w @ [cmd]\<rparr> in
      case run_result w cmd of
        Inl e \<Rightarrow> (Inl e, w1)
      | Inr rc \<Rightarrow> (Inr rc, w1))"

definition check_call :: "string list \<Rightarrow> world \<Rightarrow> (exn + unit) \<times> world" where
  "check_call cmd w =
     (case subprocess_run cmd w of
        (Inl e, w1) \<Rightarrow> (Inl e, w1)
      | (Inr rc, w1) \<Rightarrow>
          if rc = 0 then (Inr (), w1)
          else (Inl (Exn CalledProcessError (cpe_str w cmd rc)), w1))"

subsection \<open>Configuration\<close>

text \<open>
  \<^verbatim>\<open>
  BROWSER_PROFILES = {
      'chrome': os.path.expanduser(r'~\AppData\Local\Google\Chrome\User Data\Default'),
      'edge': os.path.expanduser(r'~\AppData\Local\Microsoft\Edge\User Data\Default'),
      'firefox': os.path.expanduser(r'~\AppData\Roaming\Mozilla\Firefox\Profiles')
  }
  GIT_DESKTOP_CREDENTIALS = os.path.expanduser(r'~\AppData\Roaming\GitHub Desktop')
  \<close>
  A dict iterates in insertion order, so the table is the list of its items.
\<close>

definition BROWSER_PROFILES :: "world \<Rightarrow> (string \<times> path) list" where
  "BROWSER_PROFILES w =
     [(''chrome'', home w @ [''AppData'', ''Local'', ''Google'', ''Chrome'', ''User Data'', ''Default'']),
      (''edge'', home w @ [''AppData'', ''Local'', ''Microsoft'', ''Edge'', ''User Data'', ''Default'']),
      (''firefox'', home w @ [''AppData'', ''Roaming'', ''Mozilla'', ''Firefox'', ''Profiles''])]"

definition GIT_DESKTOP_CREDENTIALS :: "world \<Rightarrow> path" where
  "GIT_DESKTOP_CREDENTIALS w = home w @ [''AppData'', ''Roaming'', ''GitHub Desktop'']"

subsection \<open>Utility functions\<close>

text \<open>
  \<^verbatim>\<open>
  def is_admin():
      if os.name == 'nt':
          try:
              return ctypes.windll.shell32.IsUserAnAdmin()
          except Exception:
              return False
      return os.geteuid() == 0 if hasattr(os, "geteuid") else False
  \<close>
\<close>

definition is_admin :: "world \<Rightarrow> pyval" where
  "is_admin w =
     (if os_name w = ''nt'' then
        (case admin_query w of
           Inr r \<Rightarrow> PyInt r
         | Inl e \<Rightarrow> PyBool False)
      else
        (case geteuid w of
           Some uid \<Rightarrow> PyBool (uid = 0)
         | None \<Rightarrow> PyBool False))"

text \<open>
  \<^verbatim>\<open>
  def log_error(msg):
      with open("superflush.log", "a", encoding="utf-8") as f:
          f.write(msg + "\n")
  \<close>
  Nothing in \<^verbatim>\<open>log_error\<close> catches what \<^verbatim>\<open>open\<close> or \<^verbatim>\<open>write\<close> raises.
\<close>

definition log_error :: "string \<Rightarrow> world \<Rightarrow> (exn + unit) \<times> world" where
  "log_error msg w =
     (case log_fault w of
        Some e \<Rightarrow> (Inl e, w)
      | None \<Rightarrow> (Inr (), w\<lparr>log_lines := log_lines w @ [msg]\<rparr>))"

subsection \<open>flush\_dns\<close>

text \<open>
  \<^verbatim>\<open>
  def flush_dns():
      try:
          system = platform.system()
          if system == 'Windows':
              if not is_admin():
                  raise PermissionError("Administrator privileges required to flush DNS on Windows.")
              subprocess.check_call(['ipconfig', '/flushdns'])
          elif system == 'Linux':
              subprocess.check_call(['systemd-resolve', '--flush-caches'])
          elif system == 'Darwin':  # macOS
              subprocess.check_call(['dscacheutil', '-flushcache'])
              subprocess.check_call(['killall', '-HUP', 'mDNSResponder'])
          else:
              raise RuntimeError(f"Unsupported OS: {system}")
          return True, "DNS cache flushed successfully."
      except Exception as e:
          log_error(f"DNS flush error: {e}")
          return False, str(e)
  \<close>
  \<open>flush_dns_try\<close> is the body of the \<^verbatim>\<open>try\<close> up to the \<^verbatim>\<open>return\<close>, \<open>flush_dns\<close>
  adds the \<^verbatim>\<open>return\<close> and the handler.
\<close>

definition flush_dns_try :: "world \<Rightarrow> (exn + unit) \<times> world" where
  "flush_dns_try w =
     (if system w = ''Windows'' then
        if \<not> truthy (is_admin w) then
          (Inl (Exn PermissionError ''Administrator privileges required to flush DNS on Windows.''), w)
        else check_call [''ipconfig'', ''/flushdns''] w
      else if system w = ''Linux'' then
        check_call [''systemd-resolve'', ''--flush-caches''] w
      else if system w = ''Darwin'' then
        (case check_call [''dscacheutil'', ''-flushcache''] w of
           (Inl e, w1) \<Rightarrow> (Inl e, w1)
         | (Inr u, w1) \<Rightarrow> check_call [''killall'', ''-HUP'', ''mDNSResponder''] w1)
      else (Inl (Exn RuntimeError (''Unsupported OS: '' @ system w)), w))"

definition flush_dns :: "world \<Rightarrow> (exn + bool \<times> string) \<times> world" where
  "flush_dns w =
     (case flush_dns_try w of
        (Inr u, w1) \<Rightarrow> (Inr (True, ''DNS cache flushed successfully.''), w1)
      | (Inl e, w1) \<Rightarrow>
          (case log_error (''DNS flush error: '' @ str e) w1 of
             (Inl e', w2) \<Rightarrow> (Inl e', w2)
           | (Inr u, w2) \<Rightarrow> (Inr (False, str e), w2)))"

subsection \<open>The shared handler\<close>

text \<open>
  The other two operations end each \<^verbatim>\<open>try\<close> with the same handler, up to the label:
  \<^verbatim>\<open>
  except Exception as e:
      err_msg = f"{name}: {e}"
      log_error(err_msg)
      errors.append(err_msg)
  \<close>
  \<open>except_log_append label errors r\<close> continues after a \<^verbatim>\<open>try\<close> whose body ended as
  \<open>r\<close>: the result is the \<^verbatim>\<open>errors\<close> list afterwards, or the exception that
  \<^verbatim>\<open>log_error\<close> raised inside the handler.
\<close>

definition except_log_append ::
    "string \<Rightarrow> string list \<Rightarrow> (exn + unit) \<times> world \<Rightarrow> (exn + string list) \<times> world" where
  "except_log_append label errors r =
     (case r of
        (Inr u, w1) \<Rightarrow> (Inr errors, w1)
      | (Inl e, w1) \<Rightarrow>
          (let err_msg = label @ '': '' @ str e in
           case log_error err_msg w1 of
             (Inl e', w2) \<Rightarrow> (Inl e', w2)
           | (Inr u, w2) \<Rightarrow> (Inr (errors @ [err_msg]), w2)))"

subsection \<open>clear\_browser\_data\<close>

text \<open>
  \<^verbatim>\<open>
  def clear_browser_data():
      errors = []
      for name, path in BROWSER_PROFILES.items():
          if os.path.exists(path):
              try:
                  for entry in ['History', 'Cookies', 'Login Data', 'Cache']:
                      target = os.path.join(path, entry)
                      if os.path.exists(target):
                          if os.path.isdir(target):
                              shutil.rmtree(target, ignore_errors=True)
                          else:
                              os.remove(target)
                  if name == 'firefox':
                      for profile in os.listdir(path):
                          prof_path = os.path.join(path, profile)
                          shutil.rmtree(prof_path, ignore_errors=True)
              except Exception as e:
                  err_msg = f"{name}: {e}"
                  log_error(err_msg)
                  errors.append(err_msg)
      return errors
  \<close>
  \<open>clear_entries\<close> is the loop over the four entries, \<open>rmtree_all\<close> the loop over the
  Firefox profiles, \<open>clear_profile\<close> the body of the \<^verbatim>\<open>try\<close> for one browser and
  \<open>clear_profiles\<close> the outer loop with its handler.
\<close>

definition artifact_entries :: "string list" where
  "artifact_entries = [''History'', ''Cookies'', ''Login Data'', ''Cache'']"

fun clear_entries :: "path \<Rightarrow> string list \<Rightarrow> world \<Rightarrow> (exn + unit) \<times> world" where
  "clear_entries path [] w = (Inr (), w)"
| "clear_entries path (entry # rest) w =
     (if exists w (path @ [entry]) then
        if isdir w (path @ [entry]) then clear_entries path rest (rmtree (path @ [entry]) w)
        else
          (case os_remove (path @ [entry]) w of
             (Inl e, w1) \<Rightarrow> (Inl e, w1)
           | (Inr u, w1) \<Rightarrow> clear_entries path rest w1)
      else clear_entries path rest w)"

fun rmtree_all :: "path \<Rightarrow> string list \<Rightarrow> world \<Rightarrow> world" where
  "rmtree_all path [] w = w"
| "rmtree_all path (profile # rest) w = rmtree_all path rest (rmtree (path @ [profile]) w)"

definition clear_profile :: "string \<Rightarrow> path \<Rightarrow> world \<Rightarrow> (exn + unit) \<times> world" where
  "clear_profile name path w =
     (case clear_entries path artifact_entries w of
        (Inl e, w1) \<Rightarrow> (Inl e, w1)
      | (Inr u, w1) \<Rightarrow>
          if name = ''firefox'' then
            (case listdir w1 path of
               Inl e \<Rightarrow> (Inl e, w1)
             | Inr profiles \<Rightarrow> (Inr (), rmtree_all path profiles w1))
          else (Inr (), w1))"

fun clear_profiles ::
    "(string \<times> path) list \<Rightarrow> string list \<Rightarrow> world \<Rightarrow> (exn + string list) \<times> world" where
  "clear_profiles [] errors w = (Inr errors, w)"
| "clear_profiles ((name, path) # rest) errors w =
     (if exists w path then
        (case except_log_append name errors (clear_profile name path w) of
           (Inl e, w1) \<Rightarrow> (Inl e, w1)
         | (Inr errors1, w1) \<Rightarrow> clear_profiles rest errors1 w1)
      else clear_profiles rest errors w)"

definition clear_browser_data :: "world \<Rightarrow> (exn + string list) \<times> world" where
  "clear_browser_data w = clear_profiles (BROWSER_PROFILES w) [] w"

subsection \<open>sign\_out\_services\<close>

text \<open>
  \<^verbatim>\<open>
  def sign_out_services():
      errors = []
      try:
          cred_file = os.path.join(GIT_DESKTOP_CREDENTIALS, 'git-credential-desktop.json')
          if os.path.exists(cred_file):
              os.remove(cred_file)
      except Exception as e:
          err_msg = f"GitHub Desktop: {e}"
          log_error(err_msg)
          errors.append(err_msg)
      if os.name == 'nt':
          try:
              for target in ["git:", "github", "chrome", "edge"]:
                  subprocess.run(['cmdkey', '/delete', target], capture_output=True)
          except Exception as e:
              err_msg = f"Windows Credentials: {e}"
              log_error(err_msg)
              errors.append(err_msg)
      return errors
  \<close>
  \<open>remove_credential_file\<close> is the body of the first \<^verbatim>\<open>try\<close>, \<open>delete_targets\<close> the
  loop of the second.
\<close>

definition store_targets :: "string list" where
  "store_targets = [''git:'', ''github'', ''chrome'', ''edge'']"

definition cmdkey_delete :: "string \<Rightarrow> string list" where
  "cmdkey_delete target = [''cmdkey'', ''/delete'', target]"

definition remove_credential_file :: "world \<Rightarrow> (exn + unit) \<times> world" where
  "remove_credential_file w =
     (let cred_file = GIT_DESKTOP_CREDENTIALS w @ [''git-credential-desktop.json''] in
      if exists w cred_file then os_remove cred_file w else (Inr (), w))"

fun delete_targets :: "string list \<Rightarrow> world \<Rightarrow> (exn + unit) \<times> world" where
  "delete_targets [] w = (Inr (), w)"
| "delete_targets (target # rest) w =
     (case subprocess_run (cmdkey_delete target) w of
        (Inl e, w1) \<Rightarrow> (Inl e, w1)
      | (Inr rc, w1) \<Rightarrow> delete_targets rest w1)"

definition sign_out_services :: "world \<Rightarrow> (exn + string list) \<times> world" where
  "sign_out_services w =
     (case except_log_append ''GitHub Desktop'' [] (remove_credential_file w) of
        (Inl e, w1) \<Rightarrow> (Inl e, w1)
      | (Inr errors, w1) \<Rightarrow>
          if os_name w1 = ''nt'' then
            except_log_append ''Windows Credentials'' errors (delete_targets store_targets w1)
          else (Inr errors, w1))"

section \<open>Vocabulary of the statements\<close>

subsection \<open>The credential-store loop, read off the environment\<close>

text \<open>
  Two functions of the launch results alone (not of the code), used to say what the
  loop over the store targets does: the targets for which a launch is attempted, and
  the exception of the first launch that fails.
\<close>

fun attempted :: "(string list \<Rightarrow> exn + int) \<Rightarrow> string list \<Rightarrow> string list" where
  "attempted rr [] = []"
| "attempted rr (t # ts) =
     (case rr (cmdkey_delete t) of Inl e \<Rightarrow> [t] | Inr rc \<Rightarrow> t # attempted rr ts)"

fun first_launch_fault :: "(string list \<Rightarrow> exn + int) \<Rightarrow> string list \<Rightarrow> exn option" where
  "first_launch_fault rr [] = None"
| "first_launch_fault rr (t # ts) =
     (case rr (cmdkey_delete t) of Inl e \<Rightarrow> Some e | Inr rc \<Rightarrow> first_launch_fault rr ts)"

subsection \<open>What one browser contributes, read off the environment\<close>

text \<open>
  The failure of one browser's \<^verbatim>\<open>try\<close> block as a function of the environment at the
  start (not of the code): \<open>entry_fault\<close> is the exception of deleting one of the four
  entries (only a regular file is deleted with \<^verbatim>\<open>os.remove\<close>, which can raise),
  \<open>first_entry_fault\<close> the first of them in the order of the loop, \<open>listdir_error\<close> the
  exception of listing the profile root, \<open>profile_fault\<close> the first failure of the
  block, and \<open>profile_errors\<close> the error strings of the browser: none when its path
  does not exist or nothing fails, and one otherwise.
\<close>

definition entry_fault :: "world \<Rightarrow> path \<Rightarrow> string \<Rightarrow> exn option" where
  "entry_fault w path entry =
     (if lookup w (path @ [entry]) = Some File then delete_fault w (path @ [entry]) else None)"

fun first_entry_fault :: "world \<Rightarrow> path \<Rightarrow> string list \<Rightarrow> exn option" where
  "first_entry_fault w path [] = None"
| "first_entry_fault w path (entry # rest) =
     (case entry_fault w path entry of
        Some x \<Rightarrow> Some x
      | None \<Rightarrow> first_entry_fault w path rest)"

definition listdir_error :: "world \<Rightarrow> path \<Rightarrow> exn option" where
  "listdir_error w path = (case listdir w path of Inl x \<Rightarrow> Some x | Inr names \<Rightarrow> None)"

definition profile_fault :: "world \<Rightarrow> string \<Rightarrow> path \<Rightarrow> exn option" where
  "profile_fault w name path =
     (case first_entry_fault w path artifact_entries of
        Some x \<Rightarrow> Some x
      | None \<Rightarrow> if name = ''firefox'' then listdir_error w path else None)"

fun profile_errors :: "world \<Rightarrow> string \<times> path \<Rightarrow> string list" where
  "profile_errors w (name, path) =
     (if exists w path then
        (case profile_fault w name path of
           Some x \<Rightarrow> [name @ '': '' @ str x]
         | None \<Rightarrow> [])
      else [])"

text \<open>
  What one browser's block may remove, again as a function of the environment at the
  start: \<open>done_entries\<close> are the entries the loop has dealt with before the first
  deletion that fails (all four when none fails), and \<open>touched w (name, path) q\<close> says
  that \<open>q\<close> is at or below one of them, or, for firefox when nothing fails, anywhere
  strictly below the profile root.  A browser whose path does not exist touches nothing.
\<close>

definition done_entries :: "world \<Rightarrow> path \<Rightarrow> string list \<Rightarrow> string list" where
  "done_entries w path entries = takeWhile (\<lambda>e. entry_fault w path e = None) entries"

definition touched :: "world \<Rightarrow> string \<times> path \<Rightarrow> path \<Rightarrow> bool" where
  "touched w b q =
     (case b of (name, path) \<Rightarrow>
        exists w path
        \<and> (list_ex (\<lambda>e. prefix (path @ [e]) q) (done_entries w path artifact_entries)
           \<or> (name = ''firefox'' \<and> profile_fault w name path = None \<and> strict_prefix path q)))"

subsection \<open>Relations used in the proofs\<close>

text \<open>
  \<open>shrunk Q w w'\<close>: the world \<open>w'\<close> is \<open>w\<close> with some file-system entries removed, each
  at a path that satisfies \<open>Q\<close>; the log may have grown, everything else is as it was.
  \<open>separated ps\<close>: no path of the table is at or below another.
\<close>

definition shrunk :: "(path \<Rightarrow> bool) \<Rightarrow> world \<Rightarrow> world \<Rightarrow> bool" where
  "shrunk Q w w' \<longleftrightarrow>
     (\<exists>P. (\<forall>q. P q \<longrightarrow> Q q) \<and> fs w' = filter (\<lambda>(q, n). \<not> P q) (fs w))
     \<and> home w' = home w \<and> delete_fault w' = delete_fault w
     \<and> listdir_fault w' = listdir_fault w \<and> log_fault w' = log_fault w
     \<and> invoked w' = invoked w"

fun separated :: "(string \<times> path) list \<Rightarrow> bool" where
  "separated [] = True"
| "separated ((name, path) # rest) =
     (list_all (\<lambda>(n, p). \<not> prefix path p \<and> \<not> prefix p path) rest \<and> separated rest)"

section \<open>Example environments\<close>

text \<open>
  A Linux desktop of an ordinary user and a Windows desktop of a user who is not an
  administrator.  On Linux \<^verbatim>\<open>expanduser\<close> leaves the leading \<^verbatim>\<open>~\<close> of the configured
  paths as it is.  The examples of the theorems below are variations of these two.
\<close>

definition ex_linux :: world where
  "ex_linux =
     \<lparr>os_name = ''posix'', system = ''Linux'',
      admin_query = Inl (Exn AttributeError ''module ctypes has no attribute windll''),
      geteuid = Some 1000, home = [''~''], fs = [],
      delete_fault = (\<lambda>p. None), listdir_fault = (\<lambda>p. None),
      run_result = (\<lambda>cmd. Inr 0),
      cpe_str = (\<lambda>cmd rc. ''Command returned non-zero exit status''),
      invoked = [], log_lines = [], log_fault = None\<rparr>"

definition ex_windows :: world where
  "ex_windows =
     \<lparr>os_name = ''nt'', system = ''Windows'', admin_query = Inr 0,
      geteuid = None, home = [''C:'', ''Users'', ''u''], fs = [],
      delete_fault = (\<lambda>p. None), listdir_fault = (\<lambda>p. None),
      run_result = (\<lambda>cmd. Inr 0),
      cpe_str = (\<lambda>cmd rc. ''Command returned non-zero exit status''),
      invoked = [], log_lines = [], log_fault = None\<rparr>"

definition access_denied :: exn where
  "access_denied = Exn PermissionError ''[Errno 13] Permission denied''"

definition not_found :: exn where
  "not_found = Exn FileNotFoundError ''[Errno 2] No such file or directory''"

definition log_denied :: exn where
  "log_denied = Exn PermissionError ''[Errno 13] Permission denied: superflush.log''"

text \<open>
  The Linux desktop with a Chrome profile whose \<^verbatim>\<open>History\<close> file and a GitHub Desktop
  credential file that cannot be deleted, no \<^verbatim>\<open>systemd-resolve\<close> to launch, and a
  working directory in which \<^verbatim>\<open>superflush.log\<close> cannot be opened.
\<close>

definition ex_linux_locked :: world where
  "ex_linux_locked =
     ex_linux\<lparr>
       fs := [([''~'', ''AppData'', ''Local'', ''Google'', ''Chrome'', ''User Data'', ''Default''], Dir),
              ([''~'', ''AppData'', ''Local'', ''Google'', ''Chrome'', ''User Data'', ''Default'', ''History''], File),
              ([''~'', ''AppData'', ''Roaming'', ''GitHub Desktop''], Dir),
              ([''~'', ''AppData'', ''Roaming'', ''GitHub Desktop'', ''git-credential-desktop.json''], File)],
       delete_fault := (\<lambda>p. Some access_denied),
       run_result := (\<lambda>cmd. Inl not_found),
       log_fault := Some log_denied\<rparr>"

text \<open>The Windows desktop, started in a directory the user cannot write to.\<close>

definition ex_windows_readonly_cwd :: world where
  "ex_windows_readonly_cwd = ex_windows\<lparr>log_fault := Some log_denied\<rparr>"

text \<open>A FreeBSD machine, started in a directory the user cannot write to.\<close>

definition ex_freebsd_readonly_cwd :: world where
  "ex_freebsd_readonly_cwd = ex_linux\<lparr>system := ''FreeBSD'', log_fault := Some log_denied\<rparr>"

text \<open>The Linux desktop with a GitHub Desktop credential file.\<close>

definition ex_linux_signed_in :: world where
  "ex_linux_signed_in =
     ex_linux\<lparr>
       fs := [([''~'', ''AppData'', ''Roaming'', ''GitHub Desktop''], Dir),
              ([''~'', ''AppData'', ''Roaming'', ''GitHub Desktop'', ''git-credential-desktop.json''], File)]\<rparr>"

text \<open>The Windows desktop on which \<^verbatim>\<open>cmdkey\<close> cannot be launched.\<close>

definition ex_windows_no_cmdkey :: world where
  "ex_windows_no_cmdkey = ex_windows\<lparr>run_result := (\<lambda>cmd. Inl not_found)\<rparr>"

text \<open>
  The Windows desktop on which \<^verbatim>\<open>cmdkey\<close> exits with status 1 (no such credential), and
  the one on which moreover the credential file is there and cannot be deleted.
\<close>

definition ex_windows_no_credentials :: world where
  "ex_windows_no_credentials = ex_windows\<lparr>run_result := (\<lambda>cmd. Inr 1)\<rparr>"

definition ex_windows_file_locked :: world where
  "ex_windows_file_locked =
     ex_windows_no_cmdkey\<lparr>
       fs := [([''C:'', ''Users'', ''u'', ''AppData'', ''Roaming'', ''GitHub Desktop''], Dir),
              ([''C:'', ''Users'', ''u'', ''AppData'', ''Roaming'', ''GitHub Desktop'',
                ''git-credential-desktop.json''], File)],
       delete_fault := (\<lambda>p. Some access_denied)\<rparr>"

text \<open>
  The three profile paths on the Linux desktop, and file systems with browser profiles:
  a Chrome profile in which \<^verbatim>\<open>History\<close> and \<^verbatim>\<open>Cookies\<close> cannot be deleted and
  \<^verbatim>\<open>Login Data\<close> can; a Chrome profile with a locked \<^verbatim>\<open>Cookies\<close> between two files
  that can be deleted, beside a Firefox profile root that cannot be listed and holds a
  cache and one profile folder; that Firefox profile root alone, with a \<^verbatim>\<open>History\<close>
  file and a cache; and a Chrome profile with nothing locked, on a machine without Edge
  and Firefox.
\<close>

definition ex_chrome :: path where
  "ex_chrome = [''~'', ''AppData'', ''Local'', ''Google'', ''Chrome'', ''User Data'', ''Default'']"

definition ex_edge :: path where
  "ex_edge = [''~'', ''AppData'', ''Local'', ''Microsoft'', ''Edge'', ''User Data'', ''Default'']"

definition ex_firefox :: path where
  "ex_firefox = [''~'', ''AppData'', ''Roaming'', ''Mozilla'', ''Firefox'', ''Profiles'']"



definition ex_firefox_unlistable :: world where
  "ex_firefox_unlistable =
     ex_linux\<lparr>
       fs := [(ex_firefox, Dir),
              (ex_firefox @ [''History''], File),
              (ex_firefox @ [''Cache''], Dir),
              (ex_firefox @ [''Cache'', ''entry''], File)],
       listdir_fault := (\<lambda>p. if p = ex_firefox then Some access_denied else None)\<rparr>"

definition ex_chrome_only :: world where
  "ex_chrome_only =
     ex_linux\<lparr>
       fs := [(ex_chrome, Dir),
              (ex_chrome @ [''History''], File),
              (ex_chrome @ [''Cache''], Dir),
              (ex_chrome @ [''Cache'', ''data_0''], File)]\<rparr>"

section \<open>The privilege detector\<close>

text \<open>
  C9.  \<^verbatim>\<open>is_admin\<close> is fail-safe.  On Windows (\<^verbatim>\<open>os.name == 'nt'\<close>), when the
  administrator query raises, it returns \<^verbatim>\<open>False\<close>.  Everywhere else it returns a
  \<^verbatim>\<open>bool\<close> that is \<^verbatim>\<open>True\<close> exactly when the effective user id is 0; in particular
  it is \<^verbatim>\<open>False\<close> when the platform reports no user id.
\<close>

theorem is_admin_fail_safe:
  "(os_name w = ''nt'' \<and> admin_query w = Inl e \<longrightarrow> is_admin w = PyBool False)
   \<and> (os_name w \<noteq> ''nt'' \<longrightarrow> is_admin w = PyBool (geteuid w = Some 0))
   \<and> (os_name w \<noteq> ''nt'' \<and> geteuid w = None \<longrightarrow> is_admin w = PyBool False)"
  by (auto simp: is_admin_def split: option.splits)

theorem is_admin_fail_safe_witness:
  "is_admin (ex_windows\<lparr>admin_query := Inl (Exn OSError ''shell32'')\<rparr>) = PyBool False
   \<and> is_admin (ex_linux\<lparr>geteuid := Some 0\<rparr>) = PyBool True
   \<and> is_admin ex_linux = PyBool False
   \<and> is_admin (ex_linux\<lparr>geteuid := None\<rparr>) = PyBool False"
  using is_admin_fail_safe [of "ex_windows\<lparr>admin_query := Inl (Exn OSError ''shell32'')\<rparr>"
      "Exn OSError ''shell32''"]
    is_admin_fail_safe [of "ex_linux\<lparr>geteuid := Some 0\<rparr>"]
    is_admin_fail_safe [of ex_linux]
    is_admin_fail_safe [of "ex_linux\<lparr>geteuid := None\<rparr>"]
  by (simp add: ex_windows_def ex_linux_def)

section \<open>The logger and the shared handler\<close>

lemma log_error_eq:
  "log_error msg w =
     (case log_fault w of
        Some e \<Rightarrow> (Inl e, w)
      | None \<Rightarrow> (Inr (), w\<lparr>log_lines := log_lines w @ [msg]\<rparr>))"
  by (simp add: log_error_def)

text \<open>The handler touches the log only, whatever it ends with.\<close>

lemma except_log_append_frame:
  "except_log_append label errors (r, w1) = (res, w2) \<Longrightarrow>
     invoked w2 = invoked w1 \<and> os_name w2 = os_name w1 \<and> run_result w2 = run_result w1
     \<and> log_fault w2 = log_fault w1 \<and> fs w2 = fs w1 \<and> home w2 = home w1
     \<and> delete_fault w2 = delete_fault w1 \<and> listdir_fault w2 = listdir_fault w1"
  by (auto simp: except_log_append_def log_error_def Let_def split: sum.splits option.splits)

text \<open>When it returns, it has appended at most one message, which starts with the label.\<close>

lemma except_log_append_tail:
  "except_log_append label errors (r, w1) = (Inr errs, w2) \<Longrightarrow>
     \<exists>b. errs = errors @ b \<and> length b \<le> 1 \<and> list_all (prefix (label @ '': '')) b"
  by (auto simp: except_log_append_def log_error_def Let_def split: sum.splits option.splits)

text \<open>When the log can be appended to, it returns, with one message per exception.\<close>

lemma except_log_append_eq:
  "log_fault w1 = None \<Longrightarrow>
   except_log_append label errors (r, w1) =
     (Inr (errors @ (case r of Inl e \<Rightarrow> [label @ '': '' @ str e] | Inr u \<Rightarrow> [])),
      w1\<lparr>log_lines := log_lines w1 @ (case r of Inl e \<Rightarrow> [label @ '': '' @ str e] | Inr u \<Rightarrow> [])\<rparr>)"
  by (simp add: except_log_append_def log_error_def Let_def split: sum.splits)

text \<open>Whatever it raises is the fault of the log.\<close>

lemma except_log_append_raises:
  "except_log_append label errors (r, w1) = (Inl e, w2) \<Longrightarrow> log_fault w1 = Some e"
  by (auto simp: except_log_append_def log_error_def Let_def split: sum.splits option.splits)

section \<open>flush\_dns\<close>

lemma check_call_invoked:
  "invoked (snd (check_call cmd w)) = invoked w @ [cmd]"
  by (simp add: check_call_def subprocess_run_def Let_def split: sum.splits)

text \<open>
  What the guard of the Windows branch does: without elevation the body of the
  \<^verbatim>\<open>try\<close> raises \<^verbatim>\<open>PermissionError\<close> before any command, and the handler returns
  the failure when the log can be appended to and raises the log's fault when not.
\<close>

lemma flush_dns_not_elevated:
  assumes "system w = ''Windows''" and "\<not> truthy (is_admin w)"
  shows "flush_dns_try w =
      (Inl (Exn PermissionError ''Administrator privileges required to flush DNS on Windows.''), w)"
    and "invoked (snd (flush_dns w)) = invoked w"
    and "log_fault w = None \<Longrightarrow>
      fst (flush_dns w) = Inr (False, ''Administrator privileges required to flush DNS on Windows.'')"
    and "log_fault w = Some e \<Longrightarrow> fst (flush_dns w) = Inl e"
  using assms by (simp_all add: flush_dns_def flush_dns_try_def log_error_def split: option.splits)

text \<open>The same for a platform that is none of the three.\<close>

lemma flush_dns_unsupported:
  assumes "system w \<noteq> ''Windows''" and "system w \<noteq> ''Linux''" and "system w \<noteq> ''Darwin''"
  shows "flush_dns_try w = (Inl (Exn RuntimeError (''Unsupported OS: '' @ system w)), w)"
    and "invoked (snd (flush_dns w)) = invoked w"
    and "log_fault w = None \<Longrightarrow> fst (flush_dns w) = Inr (False, ''Unsupported OS: '' @ system w)"
    and "log_fault w = Some e \<Longrightarrow> fst (flush_dns w) = Inl e"
  using assms by (simp_all add: flush_dns_def flush_dns_try_def log_error_def split: option.splits)

lemma flush_dns_try_log_fault:
  "log_fault (snd (flush_dns_try w)) = log_fault w"
  by (simp add: flush_dns_try_def check_call_def subprocess_run_def Let_def
      split: sum.splits prod.splits)

text \<open>\<^verbatim>\<open>flush_dns\<close> returns when the log can be appended to, and raises nothing but the
  fault of the log.\<close>

lemma flush_dns_returns:
  "log_fault w = None \<Longrightarrow> \<exists>r. fst (flush_dns w) = Inr r"
  using flush_dns_try_log_fault [of w]
  by (cases "flush_dns_try w") (auto simp: flush_dns_def log_error_def split: sum.splits)

lemma flush_dns_raises:
  "fst (flush_dns w) = Inl e \<Longrightarrow> log_fault w = Some e"
  using flush_dns_try_log_fault [of w]
  by (cases "flush_dns_try w")
    (auto simp: flush_dns_def log_error_def split: sum.splits option.splits)

text \<open>
  C1.  The claim: every core operation returns a structured result in every state and
  never lets an exception past its boundary, also on the paths that log the failure.
  The handlers call \<^verbatim>\<open>log_error\<close> unguarded, so what \<^verbatim>\<open>open\<close> raises there leaves
  the operation.  On the Linux desktop with the locked files and the unwritable log each
  of the three operations raises instead of returning.
\<close>

theorem operations_raise_past_boundary:
  "fst (flush_dns ex_linux_locked) = Inl log_denied
   \<and> fst (clear_browser_data ex_linux_locked) = Inl log_denied
   \<and> fst (sign_out_services ex_linux_locked) = Inl log_denied"
  by (simp add: ex_linux_locked_def ex_linux_def
      flush_dns_def flush_dns_try_def check_call_def subprocess_run_def log_error_def
      clear_browser_data_def BROWSER_PROFILES_def except_log_append_def clear_profile_def
      artifact_entries_def isdir_def exists_def lookup_def os_remove_def
      sign_out_services_def remove_credential_file_def GIT_DESKTOP_CREDENTIALS_def)

text \<open>
  C2.  The claim: on Windows without elevation \<^verbatim>\<open>flush_dns\<close> returns a failure of kind
  PermissionDenied and invokes no command, in every state.  No command is invoked, but
  in a directory where the log cannot be opened nothing is returned: the exception of
  \<^verbatim>\<open>log_error\<close> is raised out of the handler.
\<close>

theorem flush_dns_not_elevated_raises:
  "system ex_windows_readonly_cwd = ''Windows''
   \<and> \<not> truthy (is_admin ex_windows_readonly_cwd)
   \<and> fst (flush_dns ex_windows_readonly_cwd) = Inl log_denied
   \<and> invoked (snd (flush_dns ex_windows_readonly_cwd)) = invoked ex_windows_readonly_cwd"
  by (simp add: ex_windows_readonly_cwd_def ex_windows_def is_admin_def
      flush_dns_def flush_dns_try_def log_error_def)

text \<open>
  C3.  The claim: on a platform that is none of Windows, Linux and macOS \<^verbatim>\<open>flush_dns\<close>
  returns a failure of kind UnsupportedPlatform whose message holds the platform name,
  and invokes no command, in every state.  Again no command is invoked, and again
  nothing is returned where the log cannot be opened.
\<close>

theorem flush_dns_unsupported_raises:
  "system ex_freebsd_readonly_cwd = ''FreeBSD''
   \<and> fst (flush_dns ex_freebsd_readonly_cwd) = Inl log_denied
   \<and> invoked (snd (flush_dns ex_freebsd_readonly_cwd)) = invoked ex_freebsd_readonly_cwd"
  by (simp add: ex_freebsd_readonly_cwd_def ex_linux_def
      flush_dns_def flush_dns_try_def log_error_def)

section \<open>sign\_out\_services\<close>

lemma labels_apart:
  "prefix ''GitHub Desktop: '' s \<Longrightarrow> \<not> prefix ''Windows Credentials: '' s"
  by (cases s) auto

lemma delete_targets_eq:
  "delete_targets ts w =
     ((case first_launch_fault (run_result w) ts of None \<Rightarrow> Inr () | Some e \<Rightarrow> Inl e),
      w\<lparr>invoked := invoked w @ map cmdkey_delete (attempted (run_result w) ts)\<rparr>)"
  by (induction ts arbitrary: w) (auto simp: subprocess_run_def split: sum.splits)

lemma attempted_all:
  "first_launch_fault rr ts = None \<Longrightarrow> attempted rr ts = ts"
  by (induction ts) (auto split: sum.splits)

lemma remove_credential_file_frame:
  "remove_credential_file w = (r, w1) \<Longrightarrow>
     invoked w1 = invoked w \<and> os_name w1 = os_name w \<and> run_result w1 = run_result w
     \<and> log_fault w1 = log_fault w"
  by (auto simp: remove_credential_file_def os_remove_def fs_drop_def Let_def
      split: if_splits option.splits node.splits)

text \<open>
  C7.  Where \<^verbatim>\<open>os.name\<close> is not \<^verbatim>\<open>'nt'\<close>, \<^verbatim>\<open>sign_out_services\<close> hands no command to
  \<^verbatim>\<open>subprocess\<close>, and the errors it returns hold none of the credential-store step,
  although the four store targets are configured.
\<close>

theorem sign_out_services_skips_store:
  assumes "os_name w \<noteq> ''nt''"
  shows "invoked (snd (sign_out_services w)) = invoked w
    \<and> (\<forall>errs. fst (sign_out_services w) = Inr errs \<longrightarrow>
          \<not> list_ex (prefix ''Windows Credentials: '') errs)
    \<and> store_targets \<noteq> []"
proof -
  obtain r w1 where r: "remove_credential_file w = (r, w1)"
    by (cases "remove_credential_file w")
  obtain res w2 where e: "except_log_append ''GitHub Desktop'' [] (r, w1) = (res, w2)"
    by (cases "except_log_append ''GitHub Desktop'' [] (r, w1)")
  have f: "invoked w2 = invoked w" "os_name w2 = os_name w"
    using remove_credential_file_frame [OF r] except_log_append_frame [OF e] by simp_all
  have s: "sign_out_services w =
      (case res of Inl e \<Rightarrow> (Inl e, w2) | Inr errors \<Rightarrow> (Inr errors, w2))"
    using assms f by (simp add: sign_out_services_def r e split: sum.splits)
  have "\<not> list_ex (prefix ''Windows Credentials: '') errs"
    if "fst (sign_out_services w) = Inr errs" for errs
  proof -
    from that s have "res = Inr errs" by (cases res) simp_all
    with except_log_append_tail [of "''GitHub Desktop''" "[]" r w1 errs w2] e
    obtain b where "errs = b" "length b \<le> 1" "list_all (prefix ''GitHub Desktop: '') b"
      by auto
    then show ?thesis by (cases errs) (auto dest: labels_apart)
  qed
  moreover have "invoked (snd (sign_out_services w)) = invoked w"
    using s f by (cases res) simp_all
  ultimately show ?thesis by (simp add: store_targets_def)
qed

theorem sign_out_services_skips_store_witness:
  "os_name ex_linux_signed_in \<noteq> ''nt''
   \<and> invoked (snd (sign_out_services ex_linux_signed_in)) = []
   \<and> fst (sign_out_services ex_linux_signed_in) = Inr []"
  using sign_out_services_skips_store [of ex_linux_signed_in]
  by (simp add: ex_linux_signed_in_def ex_linux_def sign_out_services_def
      except_log_append_def remove_credential_file_def GIT_DESKTOP_CREDENTIALS_def
      exists_def lookup_def os_remove_def fs_drop_def)

text \<open>
  C8.  The claim: on Windows the deletion command is invoked exactly once per store
  target.  It is not where a launch fails: the loop stands inside one \<^verbatim>\<open>try\<close>, so the
  first launch that fails ends it.  Without \<^verbatim>\<open>cmdkey\<close> the command is attempted for
  the first target and for no other.
\<close>

theorem store_targets_not_all_invoked:
  "os_name ex_windows_no_cmdkey = ''nt''
   \<and> invoked (snd (sign_out_services ex_windows_no_cmdkey)) = [cmdkey_delete ''git:'']
   \<and> cmdkey_delete ''github'' \<notin> set (invoked (snd (sign_out_services ex_windows_no_cmdkey)))
   \<and> fst (sign_out_services ex_windows_no_cmdkey)
       = Inr [''Windows Credentials: [Errno 2] No such file or directory'']"
  by (simp add: ex_windows_no_cmdkey_def ex_windows_def not_found_def sign_out_services_def
      except_log_append_def remove_credential_file_def GIT_DESKTOP_CREDENTIALS_def
      exists_def lookup_def log_error_def store_targets_def subprocess_run_def cmdkey_delete_def
      Let_def)

text \<open>
  C8, amended.  On Windows, when the log can be appended to, \<^verbatim>\<open>sign_out_services\<close>
  returns, having invoked the deletion command once per store target, in order, up to
  and including the first target whose launch fails (all four when none fails).  The
  exit statuses play no part: the errors of the store step are none when every launch
  succeeds, and the one string \<^verbatim>\<open>"Windows Credentials: {detail}"\<close> of the first launch
  that fails otherwise.
\<close>

theorem sign_out_services_store_step:
  assumes "os_name w = ''nt''" and "log_fault w = None"
  shows "\<exists>errs w'. sign_out_services w = (Inr errs, w')
    \<and> invoked w' = invoked w @ map cmdkey_delete (attempted (run_result w) store_targets)
    \<and> (first_launch_fault (run_result w) store_targets = None \<longrightarrow>
         attempted (run_result w) store_targets = store_targets)
    \<and> filter (prefix ''Windows Credentials: '') errs =
        (case first_launch_fault (run_result w) store_targets of
           None \<Rightarrow> []
         | Some e \<Rightarrow> [''Windows Credentials: '' @ str e])"
proof -
  obtain r w1 where r: "remove_credential_file w = (r, w1)"
    by (cases "remove_credential_file w")
  obtain res w2 where e: "except_log_append ''GitHub Desktop'' [] (r, w1) = (res, w2)"
    by (cases "except_log_append ''GitHub Desktop'' [] (r, w1)")
  have f: "invoked w2 = invoked w" "os_name w2 = os_name w" "run_result w2 = run_result w"
    "log_fault w2 = log_fault w" "log_fault w1 = log_fault w"
    using remove_credential_file_frame [OF r] except_log_append_frame [OF e] by simp_all
  from except_log_append_eq [of w1 "''GitHub Desktop''" "[]" r] f assms e
  obtain a where a: "res = Inr a" by auto
  from except_log_append_tail [of "''GitHub Desktop''" "[]" r w1 a w2] e a
  obtain b where "a = b" "length b \<le> 1" "list_all (prefix ''GitHub Desktop: '') b"
    by auto
  then have a': "filter (prefix ''Windows Credentials: '') a = []"
    by (cases a) (auto dest: labels_apart)
  define w3 where
    "w3 = w2\<lparr>invoked := invoked w2 @ map cmdkey_delete (attempted (run_result w2) store_targets)\<rparr>"
  have l3: "log_fault w3 = None"
    using f assms by (simp add: w3_def)
  have s: "sign_out_services w =
      except_log_append ''Windows Credentials'' a
        ((case first_launch_fault (run_result w2) store_targets of
            None \<Rightarrow> Inr () | Some e \<Rightarrow> Inl e), w3)"
    using assms f by (simp add: sign_out_services_def r e a delete_targets_eq w3_def)
  show ?thesis
    unfolding s except_log_append_eq [OF l3]
    using a' f attempted_all [of "run_result w" store_targets]
    by (auto simp: w3_def split: option.splits)
qed

theorem sign_out_services_store_step_witness:
  "os_name ex_windows_no_credentials = ''nt'' \<and> log_fault ex_windows_no_credentials = None
   \<and> fst (sign_out_services ex_windows_no_credentials) = Inr []
   \<and> invoked (snd (sign_out_services ex_windows_no_credentials))
       = [cmdkey_delete ''git:'', cmdkey_delete ''github'', cmdkey_delete ''chrome'',
          cmdkey_delete ''edge'']"
  using sign_out_services_store_step [of ex_windows_no_credentials]
  by (simp add: ex_windows_no_credentials_def ex_windows_def sign_out_services_def
      except_log_append_def remove_credential_file_def GIT_DESKTOP_CREDENTIALS_def
      exists_def lookup_def log_error_def store_targets_def subprocess_run_def Let_def)

text \<open>
  C10.  Whenever \<^verbatim>\<open>sign_out_services\<close> returns, it returns at most two error strings:
  at most one of the credential-file step, which starts with the service name, followed
  by at most one of the credential-store step, which starts with
  \<^verbatim>\<open>"Windows Credentials: "\<close>.
\<close>

theorem sign_out_services_at_most_two_errors:
  assumes "fst (sign_out_services w) = Inr errs"
  shows "length errs \<le> 2
    \<and> (\<exists>a b. errs = a @ b \<and> length a \<le> 1 \<and> length b \<le> 1
           \<and> list_all (prefix ''GitHub Desktop: '') a
           \<and> list_all (prefix ''Windows Credentials: '') b)"
proof -
  obtain r w1 where r: "remove_credential_file w = (r, w1)"
    by (cases "remove_credential_file w")
  obtain res w2 where e: "except_log_append ''GitHub Desktop'' [] (r, w1) = (res, w2)"
    by (cases "except_log_append ''GitHub Desktop'' [] (r, w1)")
  obtain r2 w3 where d: "delete_targets store_targets w2 = (r2, w3)"
    by (cases "delete_targets store_targets w2")
  from assms obtain a where a: "res = Inr a"
    by (cases res) (simp_all add: sign_out_services_def r e)
  from except_log_append_tail [of "''GitHub Desktop''" "[]" r w1 a w2] e a
  have a': "length a \<le> 1" "list_all (prefix ''GitHub Desktop: '') a" by auto
  have "\<exists>b. errs = a @ b \<and> length b \<le> 1 \<and> list_all (prefix ''Windows Credentials: '') b"
  proof (cases "os_name w2 = ''nt''")
    case False
    then have "errs = a" using assms by (simp add: sign_out_services_def r e a)
    then show ?thesis by simp
  next
    case True
    then have "fst (except_log_append ''Windows Credentials'' a (r2, w3)) = Inr errs"
      using assms by (simp add: sign_out_services_def r e a d)
    then obtain w4 where
      "except_log_append ''Windows Credentials'' a (r2, w3) = (Inr errs, w4)"
      by (cases "except_log_append ''Windows Credentials'' a (r2, w3)") simp
    from except_log_append_tail [OF this] show ?thesis by simp
  qed
  then obtain b where
    b: "errs = a @ b" "length b \<le> 1" "list_all (prefix ''Windows Credentials: '') b"
    by blast
  have "length errs \<le> 2" using a' b by simp
  moreover have "\<exists>a b. errs = a @ b \<and> length a \<le> 1 \<and> length b \<le> 1
           \<and> list_all (prefix ''GitHub Desktop: '') a
           \<and> list_all (prefix ''Windows Credentials: '') b"
    using a' b by blast
  ultimately show ?thesis by blast
qed

theorem sign_out_services_at_most_two_errors_witness:
  "fst (sign_out_services ex_windows_file_locked)
     = Inr [''GitHub Desktop: [Errno 13] Permission denied'',
            ''Windows Credentials: [Errno 2] No such file or directory'']
   \<and> length [''GitHub Desktop: [Errno 13] Permission denied'',
             ''Windows Credentials: [Errno 2] No such file or directory''] \<le> (2::nat)"
  using sign_out_services_at_most_two_errors [of ex_windows_file_locked]
  by (simp add: ex_windows_file_locked_def ex_windows_no_cmdkey_def ex_windows_def
      access_denied_def not_found_def sign_out_services_def
      except_log_append_def remove_credential_file_def GIT_DESKTOP_CREDENTIALS_def
      exists_def lookup_def os_remove_def log_error_def store_targets_def subprocess_run_def
      Let_def)

text \<open>\<^verbatim>\<open>sign_out_services\<close> raises nothing but the fault of the log.\<close>

lemma sign_out_services_raises:
  assumes "fst (sign_out_services w) = Inl x"
  shows "log_fault w = Some x"
proof -
  obtain r w1 where r: "remove_credential_file w = (r, w1)"
    by (cases "remove_credential_file w")
  obtain res w2 where e: "except_log_append ''GitHub Desktop'' [] (r, w1) = (res, w2)"
    by (cases "except_log_append ''GitHub Desktop'' [] (r, w1)")
  obtain r2 w3 where d: "delete_targets store_targets w2 = (r2, w3)"
    by (cases "delete_targets store_targets w2")
  have f: "log_fault w2 = log_fault w" "log_fault w1 = log_fault w"
    using remove_credential_file_frame [OF r] except_log_append_frame [OF e] by simp_all
  have f3: "log_fault w3 = log_fault w2"
    using d by (auto simp: delete_targets_eq)
  show ?thesis
  proof (cases res)
    case (Inl y)
    then have "x = y" using assms by (simp add: sign_out_services_def r e)
    with except_log_append_raises [of "''GitHub Desktop''" "[]" r w1 y w2] e Inl f
    show ?thesis by simp
  next
    case (Inr a)
    then have "os_name w2 = ''nt''"
      using assms by (auto simp: sign_out_services_def r e split: if_splits)
    then have "fst (except_log_append ''Windows Credentials'' a (r2, w3)) = Inl x"
      using assms Inr by (simp add: sign_out_services_def r e d)
    then obtain w4 where
      "except_log_append ''Windows Credentials'' a (r2, w3) = (Inl x, w4)"
      by (cases "except_log_append ''Windows Credentials'' a (r2, w3)") simp
    from except_log_append_raises [OF this] f f3 show ?thesis by simp
  qed
qed

section \<open>clear\_browser\_data\<close>

declare profile_errors.simps [simp del]

subsection \<open>Worlds that only lose files\<close>

lemma map_of_filter_keys:
  "map_of (filter (\<lambda>(q, n). \<not> P q) xs) k = (if P k then None else map_of xs k)"
  by (induction xs) auto

lemma shrunk_refl: "shrunk Q w w"
  unfolding shrunk_def by (auto intro!: exI [of _ "\<lambda>q. False"])

lemma shrunk_mono: "shrunk Q w w' \<Longrightarrow> (\<And>q. Q q \<Longrightarrow> Q' q) \<Longrightarrow> shrunk Q' w w'"
  unfolding shrunk_def by blast

lemma filter_filter_keys:
  "filter (\<lambda>(q, n). \<not> P2 q) (filter (\<lambda>(q, n). \<not> P1 q) xs)
     = filter (\<lambda>(q, n). \<not> (P1 q \<or> P2 q)) xs"
  by (induction xs) auto

lemma shrunk_trans:
  assumes "shrunk Q w w'" and "shrunk Q w' w''"
  shows "shrunk Q w w''"
proof -
  from assms(1) obtain P1 where
    p1: "\<forall>q. P1 q \<longrightarrow> Q q" "fs w' = filter (\<lambda>(q, n). \<not> P1 q) (fs w)"
    unfolding shrunk_def by blast
  from assms(2) obtain P2 where
    p2: "\<forall>q. P2 q \<longrightarrow> Q q" "fs w'' = filter (\<lambda>(q, n). \<not> P2 q) (fs w')"
    unfolding shrunk_def by blast
  have "fs w'' = filter (\<lambda>(q, n). \<not> (P1 q \<or> P2 q)) (fs w)"
    by (simp only: p2 p1 filter_filter_keys)
  moreover have "\<forall>q. P1 q \<or> P2 q \<longrightarrow> Q q" using p1 p2 by blast
  ultimately have "\<exists>P. (\<forall>q. P q \<longrightarrow> Q q) \<and> fs w'' = filter (\<lambda>(q, n). \<not> P q) (fs w)"
    by (intro exI [of _ "\<lambda>q. P1 q \<or> P2 q"]) simp
  with assms show ?thesis unfolding shrunk_def by simp
qed

lemma shrunk_lookup:
  "shrunk Q w w' \<Longrightarrow> lookup w' q = lookup w q \<or> (lookup w' q = None \<and> Q q)"
  unfolding shrunk_def lookup_def by (auto simp: map_of_filter_keys split: if_splits)

lemma shrunk_lookup_same:
  "shrunk Q w w' \<Longrightarrow> \<not> Q q \<Longrightarrow> lookup w' q = lookup w q"
  using shrunk_lookup by blast

lemma shrunk_under:
  assumes "shrunk Q w w'" and "\<And>q. R q \<Longrightarrow> \<not> Q q"
  shows "filter (\<lambda>(q, n). R q) (fs w') = filter (\<lambda>(q, n). R q) (fs w)"
proof -
  from assms(1) obtain P where
    p: "\<forall>q. P q \<longrightarrow> Q q" "fs w' = filter (\<lambda>(q, n). \<not> P q) (fs w)"
    unfolding shrunk_def by blast
  have "filter (\<lambda>(q, n). R q) (filter (\<lambda>(q, n). \<not> P q) xs) = filter (\<lambda>(q, n). R q) xs" for xs
    using p(1) assms(2) by (induction xs) auto
  with p(2) show ?thesis by simp
qed

lemma shrunk_fields:
  "shrunk Q w w' \<Longrightarrow> home w' = home w \<and> delete_fault w' = delete_fault w
     \<and> listdir_fault w' = listdir_fault w \<and> log_fault w' = log_fault w
     \<and> invoked w' = invoked w"
  unfolding shrunk_def by simp

lemma shrunk_fs_drop: "(\<And>q. P q \<Longrightarrow> Q q) \<Longrightarrow> shrunk Q w (fs_drop P w)"
  unfolding shrunk_def fs_drop_def by auto

lemma shrunk_os_remove: "os_remove p w = (r, w') \<Longrightarrow> shrunk (\<lambda>q. q = p) w w'"
  by (auto simp: os_remove_def split: option.splits node.splits intro: shrunk_refl shrunk_fs_drop)

lemma shrunk_rmtree: "shrunk (prefix p) w (rmtree p w)"
  by (auto simp: rmtree_def intro: shrunk_refl shrunk_fs_drop)

lemma shrunk_handler:
  "except_log_append label errors (r, w1) = (res, w2) \<Longrightarrow> shrunk Q w1 w2"
  unfolding shrunk_def
  by (auto simp: except_log_append_def log_error_def Let_def
      split: sum.splits option.splits intro!: exI [of _ "\<lambda>q. False"])


text \<open>Each loop of \<^verbatim>\<open>clear_browser_data\<close> removes entries strictly below the
  profile path only.\<close>

lemma strict_prefix_snoc: "prefix (p @ [e]) q \<Longrightarrow> strict_prefix p q"
  by (rule prefix_snocD)

lemma shrunk_clear_entries:
  "clear_entries p es w = (r, w') \<Longrightarrow> shrunk (strict_prefix p) w w'"
proof (induction es arbitrary: w)
  case Nil
  then show ?case by (simp add: shrunk_refl)
next
  case (Cons e es)
  show ?case
  proof (cases "exists w (p @ [e])")
    case False
    with Cons show ?thesis by simp
  next
    case True
    show ?thesis
    proof (cases "isdir w (p @ [e])")
      case d: True
      have "shrunk (strict_prefix p) w (rmtree (p @ [e]) w)"
        by (rule shrunk_mono [OF shrunk_rmtree]) (rule strict_prefix_snoc)
      moreover have "shrunk (strict_prefix p) (rmtree (p @ [e]) w) w'"
        using Cons True d by simp
      ultimately show ?thesis by (rule shrunk_trans)
    next
      case f: False
      obtain r1 w1 where o: "os_remove (p @ [e]) w = (r1, w1)"
        by (cases "os_remove (p @ [e]) w")
      have s1: "shrunk (strict_prefix p) w w1"
        by (rule shrunk_mono [OF shrunk_os_remove [OF o]]) (simp add: strict_prefix_def)
      show ?thesis
      proof (cases r1)
        case (Inl x)
        with Cons.prems True f o have "w' = w1" by simp
        with s1 show ?thesis by simp
      next
        case (Inr u)
        with Cons.prems True f o have "clear_entries p es w1 = (r, w')" by simp
        from s1 Cons.IH [OF this] show ?thesis by (rule shrunk_trans)
      qed
    qed
  qed
qed

lemma shrunk_rmtree_all: "shrunk (strict_prefix p) w (rmtree_all p names w)"
proof (induction names arbitrary: w)
  case Nil
  show ?case by (simp add: shrunk_refl)
next
  case (Cons a names)
  have "shrunk (strict_prefix p) w (rmtree (p @ [a]) w)"
    by (rule shrunk_mono [OF shrunk_rmtree]) (rule strict_prefix_snoc)
  from this Cons [of "rmtree (p @ [a]) w"] show ?case
    by (simp add: shrunk_trans)
qed

lemma shrunk_clear_profile:
  assumes "clear_profile n p w = (r, w')"
  shows "shrunk (strict_prefix p) w w'"
proof -
  obtain r1 w1 where c: "clear_entries p artifact_entries w = (r1, w1)"
    by (cases "clear_entries p artifact_entries w")
  note s1 = shrunk_clear_entries [OF c]
  have "w' = w1 \<or> (\<exists>names. w' = rmtree_all p names w1)"
    using assms c by (auto simp: clear_profile_def split: sum.splits if_splits)
  then show ?thesis
    using s1 shrunk_rmtree_all [of p w1] by (auto intro: shrunk_trans)
qed

subsection \<open>One browser\<close>

text \<open>
  Whether the body of the \<^verbatim>\<open>try\<close> raises, and what, is decided by the environment
  at its start: deleting or clearing one entry changes nothing at the others.
\<close>

lemma entry_fault_shrunk:
  assumes "shrunk Q w w'" and "entry_fault w p e = None"
  shows "entry_fault w' p e = None"
  using shrunk_lookup [OF assms(1), of "p @ [e]"] shrunk_fields [OF assms(1)] assms(2)
  by (auto simp: entry_fault_def split: if_splits)

lemma entry_fault_same:
  assumes "shrunk Q w w'" and "\<not> Q (p @ [e])"
  shows "entry_fault w' p e = entry_fault w p e"
  using shrunk_lookup_same [OF assms] shrunk_fields [OF assms(1)]
  by (simp add: entry_fault_def)

lemma first_entry_fault_cong:
  "(\<And>e. e \<in> set es \<Longrightarrow> entry_fault w' p e = entry_fault w p e) \<Longrightarrow>
     first_entry_fault w' p es = first_entry_fault w p es"
  by (induction es) (auto split: option.splits)

lemma entry_fault_step:
  assumes "shrunk (\<lambda>q. prefix (p @ [e]) q) w w'" and "entry_fault w p e = None"
  shows "entry_fault w' p e' = entry_fault w p e'"
proof (cases "e' = e")
  case True
  with assms entry_fault_shrunk [OF assms] show ?thesis by simp
next
  case False
  then have "\<not> prefix (p @ [e]) (p @ [e'])" by simp
  with entry_fault_same [OF assms(1), of p e'] show ?thesis by simp
qed

lemma clear_entries_fst:
  "fst (clear_entries p es w) =
     (case first_entry_fault w p es of None \<Rightarrow> Inr () | Some x \<Rightarrow> Inl x)"
proof (induction es arbitrary: w)
  case Nil
  show ?case by simp
next
  case (Cons e es)
  show ?case
  proof (cases "lookup w (p @ [e])")
    case None
    then show ?thesis using Cons by (simp add: exists_def entry_fault_def)
  next
    case (Some k)
    show ?thesis
    proof (cases k)
      case Dir
      define w1 where "w1 = rmtree (p @ [e]) w"
      have n: "entry_fault w p e = None" using Some Dir by (simp add: entry_fault_def)
      have "shrunk (\<lambda>q. prefix (p @ [e]) q) w w1"
        unfolding w1_def by (rule shrunk_rmtree)
      from entry_fault_step [OF this n]
      have "first_entry_fault w1 p es = first_entry_fault w p es"
        by (intro first_entry_fault_cong) simp
      then show ?thesis
        using Some Dir n Cons [of w1] by (simp add: exists_def isdir_def w1_def)
    next
      case File
      show ?thesis
      proof (cases "delete_fault w (p @ [e])")
        case (Some x)
        then show ?thesis
          using \<open>lookup w (p @ [e]) = Some k\<close> File
          by (simp add: exists_def isdir_def entry_fault_def os_remove_def)
      next
        case None
        define w1 where "w1 = fs_drop (\<lambda>q. q = p @ [e]) w"
        have n: "entry_fault w p e = None" using None by (simp add: entry_fault_def)
        have "shrunk (\<lambda>q. prefix (p @ [e]) q) w w1"
          unfolding w1_def by (rule shrunk_fs_drop) simp
        from entry_fault_step [OF this n]
        have "first_entry_fault w1 p es = first_entry_fault w p es"
          by (intro first_entry_fault_cong) simp
        then show ?thesis
          using \<open>lookup w (p @ [e]) = Some k\<close> File None n Cons [of w1]
          by (simp add: exists_def isdir_def os_remove_def w1_def)
      qed
    qed
  qed
qed

lemma listdir_error_eq:
  "listdir_error w p =
     (case lookup w p of
        None \<Rightarrow> Some (Exn FileNotFoundError ''No such file or directory'')
      | Some File \<Rightarrow> Some (Exn NotADirectoryError ''Not a directory'')
      | Some Dir \<Rightarrow> listdir_fault w p)"
  by (simp add: listdir_error_def listdir_def split: option.splits node.splits)

lemma listdir_error_cong:
  "lookup w' p = lookup w p \<Longrightarrow> listdir_fault w' = listdir_fault w \<Longrightarrow>
     listdir_error w' p = listdir_error w p"
  by (auto simp: listdir_error_eq split: option.splits node.splits)

lemma clear_profile_fst:
  "fst (clear_profile n p w) =
     (case profile_fault w n p of None \<Rightarrow> Inr () | Some x \<Rightarrow> Inl x)"
proof -
  obtain r1 w1 where c: "clear_entries p artifact_entries w = (r1, w1)"
    by (cases "clear_entries p artifact_entries w")
  from clear_entries_fst [of p artifact_entries w] c
  have r1: "r1 = (case first_entry_fault w p artifact_entries of None \<Rightarrow> Inr () | Some x \<Rightarrow> Inl x)"
    by simp
  note s1 = shrunk_clear_entries [OF c]
  have "lookup w1 p = lookup w p"
    by (rule shrunk_lookup_same [OF s1]) simp
  then have l: "listdir_error w1 p = listdir_error w p"
    using shrunk_fields [OF s1] by (intro listdir_error_cong) simp_all
  show ?thesis
  proof (cases "first_entry_fault w p artifact_entries")
    case (Some x)
    then show ?thesis using c r1 by (simp add: clear_profile_def profile_fault_def)
  next
    case None
    then have "r1 = Inr ()" using r1 by simp
    then show ?thesis
      using c None l
      by (auto simp: clear_profile_def profile_fault_def listdir_error_def split: sum.splits)
  qed
qed


text \<open>An error of a browser starts with its name; there is at most one; a browser
  without error stays so while files are only lost; and what one browser contributes
  does not depend on anything outside its profile path.\<close>

lemma profile_errors_prefix:
  "e \<in> set (profile_errors w (n, p)) \<Longrightarrow> prefix (n @ '': '') e"
  by (cases "exists w p"; cases "profile_fault w n p") (simp_all add: profile_errors.simps)


lemma first_entry_fault_shrunk:
  "shrunk Q w w' \<Longrightarrow> first_entry_fault w p es = None \<Longrightarrow> first_entry_fault w' p es = None"
  by (induction es) (auto split: option.splits dest: entry_fault_shrunk)

lemma profile_errors_shrunk:
  assumes "shrunk Q w w'" and "profile_errors w (n, p) = []"
  shows "profile_errors w' (n, p) = []"
proof (cases "exists w' p")
  case False
  then show ?thesis by (simp add: profile_errors.simps)
next
  case True
  with shrunk_lookup [OF assms(1), of p] have l: "lookup w' p = lookup w p"
    by (auto simp: exists_def)
  with True have "exists w p" by (simp add: exists_def)
  with assms(2) have pf: "profile_fault w n p = None"
    by (simp add: profile_errors.simps split: option.splits)
  then have "first_entry_fault w p artifact_entries = None"
    by (simp add: profile_fault_def split: option.splits)
  from first_entry_fault_shrunk [OF assms(1) this]
  have f: "first_entry_fault w' p artifact_entries = None" .
  have "listdir_error w' p = listdir_error w p"
    using l shrunk_fields [OF assms(1)] by (intro listdir_error_cong) simp_all
  with pf f have "profile_fault w' n p = None"
    by (simp add: profile_fault_def split: option.splits if_splits)
  then show ?thesis by (simp add: profile_errors.simps)
qed

lemma profile_errors_same:
  assumes "shrunk Q w w'" and "\<And>q. prefix p q \<Longrightarrow> \<not> Q q"
  shows "profile_errors w' (n, p) = profile_errors w (n, p)"
proof -
  have l: "lookup w' p = lookup w p"
    by (rule shrunk_lookup_same [OF assms(1)]) (simp add: assms(2))
  have "entry_fault w' p e = entry_fault w p e" for e
    by (rule entry_fault_same [OF assms(1)]) (simp add: assms(2))
  then have fe: "first_entry_fault w' p artifact_entries = first_entry_fault w p artifact_entries"
    by (intro first_entry_fault_cong)
  have le: "listdir_error w' p = listdir_error w p"
    using l shrunk_fields [OF assms(1)] by (intro listdir_error_cong) simp_all
  have "profile_fault w' n p = profile_fault w n p"
    unfolding profile_fault_def fe le by (rule refl)
  then show ?thesis
    using l by (simp add: exists_def profile_errors.simps)
qed

text \<open>
  What the block of one browser removes lies at or below the entries done before the
  first failure or, for firefox without failure, below the profile root; and which
  paths a browser touches does not depend on anything outside its profile path.
\<close>

lemma touched_under: "touched w (n, p) q \<Longrightarrow> exists w p \<and> strict_prefix p q"
  by (auto simp: touched_def list_ex_iff dest: strict_prefix_snoc)

lemma done_entries_cong:
  "(\<And>e. entry_fault w' p e = entry_fault w p e) \<Longrightarrow> done_entries w' p es = done_entries w p es"
  by (simp add: done_entries_def)

lemma shrunk_clear_entries_done:
  "clear_entries p es w = (r, w') \<Longrightarrow>
     shrunk (\<lambda>q. list_ex (\<lambda>e. prefix (p @ [e]) q) (done_entries w p es)) w w'"
proof (induction es arbitrary: w)
  case Nil
  then show ?case by (simp add: shrunk_refl)
next
  case (Cons e es)
  let ?Q = "\<lambda>q. list_ex (\<lambda>e. prefix (p @ [e]) q) (done_entries w p (e # es))"
  show ?case
  proof (cases "entry_fault w p e")
    case (Some x)
    then have "lookup w (p @ [e]) = Some File" "delete_fault w (p @ [e]) = Some x"
      by (auto simp: entry_fault_def split: if_splits)
    with Cons.prems have "w' = w"
      by (simp add: exists_def isdir_def os_remove_def)
    then show ?thesis by (simp add: shrunk_refl)
  next
    case None
    then have d: "done_entries w p (e # es) = e # done_entries w p es"
      by (simp add: done_entries_def)
    have step: "shrunk ?Q w w'"
      if s1: "shrunk (\<lambda>q. prefix (p @ [e]) q) w w1" and c: "clear_entries p es w1 = (r, w')"
      for w1
    proof -
      have "done_entries w1 p es = done_entries w p es"
        by (rule done_entries_cong) (rule entry_fault_step [OF s1 None])
      with Cons.IH [OF c]
      have "shrunk (\<lambda>q. list_ex (\<lambda>e. prefix (p @ [e]) q) (done_entries w p es)) w1 w'"
        by simp
      then have "shrunk ?Q w1 w'"
        by (rule shrunk_mono) (simp add: d)
      moreover have "shrunk ?Q w w1"
        by (rule shrunk_mono [OF s1]) (simp add: d)
      ultimately show ?thesis by (rule shrunk_trans [rotated])
    qed
    show ?thesis
    proof (cases "lookup w (p @ [e])")
      case n: None
      with Cons.prems have "clear_entries p es w = (r, w')" by (simp add: exists_def)
      from step [OF shrunk_refl this] show ?thesis .
    next
      case (Some k)
      show ?thesis
      proof (cases k)
        case Dir
        with Some Cons.prems have "clear_entries p es (rmtree (p @ [e]) w) = (r, w')"
          by (simp add: exists_def isdir_def)
        from step [OF shrunk_rmtree this] show ?thesis .
      next
        case File
        with None Some have df: "delete_fault w (p @ [e]) = None"
          by (simp add: entry_fault_def)
        with File Some Cons.prems
        have "clear_entries p es (fs_drop (\<lambda>q. q = p @ [e]) w) = (r, w')"
          by (simp add: exists_def isdir_def os_remove_def)
        moreover have "shrunk (\<lambda>q. prefix (p @ [e]) q) w (fs_drop (\<lambda>q. q = p @ [e]) w)"
          by (rule shrunk_fs_drop) simp
        ultimately show ?thesis by (rule step [rotated])
      qed
    qed
  qed
qed

lemma shrunk_clear_profile_touched:
  assumes "clear_profile n p w = (r, w')" and "exists w p"
  shows "shrunk (touched w (n, p)) w w'"
proof -
  obtain r1 w1 where c: "clear_entries p artifact_entries w = (r1, w1)"
    by (cases "clear_entries p artifact_entries w")
  have s1: "shrunk (touched w (n, p)) w w1"
    by (rule shrunk_mono [OF shrunk_clear_entries_done [OF c]])
      (simp add: touched_def assms(2))
  have pf: "fst (clear_profile n p w) = (case profile_fault w n p of None \<Rightarrow> Inr () | Some x \<Rightarrow> Inl x)"
    by (rule clear_profile_fst)
  show ?thesis
  proof (cases "\<exists>names. w' = rmtree_all p names w1 \<and> r = Inr () \<and> n = ''firefox''")
    case True
    then obtain names where w': "w' = rmtree_all p names w1" and r: "r = Inr ()"
      and n: "n = ''firefox''" by blast
    from pf assms(1) r have "profile_fault w n p = None"
      by (simp split: option.splits)
    then have "shrunk (touched w (n, p)) w1 w'"
      unfolding w' using n assms(2)
      by (intro shrunk_mono [OF shrunk_rmtree_all]) (simp add: touched_def)
    with s1 show ?thesis by (rule shrunk_trans)
  next
    case False
    then have "w' = w1"
      using assms(1) c by (auto simp: clear_profile_def split: sum.splits if_splits)
    with s1 show ?thesis by simp
  qed
qed


subsection \<open>The loop over the browsers\<close>

text \<open>
  One round of the loop: either the handler raises (then the log has a fault), or the
  loop goes on with the errors of this browser appended.
\<close>

lemma clear_profiles_step:
  "\<exists>w2. shrunk (\<lambda>q. exists w p \<and> strict_prefix p q) w w2
     \<and> shrunk (touched w (n, p)) w w2
     \<and> ((\<exists>e. clear_profiles ((n, p) # rest) errs w = (Inl e, w2) \<and> log_fault w = Some e
            \<and> profile_errors w (n, p) \<noteq> [])
        \<or> (clear_profiles ((n, p) # rest) errs w
              = clear_profiles rest (errs @ profile_errors w (n, p)) w2
            \<and> (log_fault w \<noteq> None \<longrightarrow> profile_errors w (n, p) = [])))"
proof (cases "exists w p")
  case False
  then have "clear_profiles ((n, p) # rest) errs w
      = clear_profiles rest (errs @ profile_errors w (n, p)) w"
    by (simp add: profile_errors.simps)
  moreover from False have "profile_errors w (n, p) = []"
    by (simp add: profile_errors.simps)
  ultimately show ?thesis
    using shrunk_refl [of _ w] by (intro exI [of _ w]) simp
next
  case True
  obtain r w1 where c: "clear_profile n p w = (r, w1)"
    by (cases "clear_profile n p w")
  obtain res w2 where h: "except_log_append n errs (r, w1) = (res, w2)"
    by (cases "except_log_append n errs (r, w1)")
  have r: "r = (case profile_fault w n p of None \<Rightarrow> Inr () | Some x \<Rightarrow> Inl x)"
    using clear_profile_fst [of n p w] c by simp
  have t: "shrunk (touched w (n, p)) w w2"
    by (rule shrunk_trans [OF shrunk_clear_profile_touched [OF c True] shrunk_handler [OF h]])
  have s: "shrunk (\<lambda>q. exists w p \<and> strict_prefix p q) w w2"
    by (rule shrunk_mono [OF t]) (rule touched_under)
  have lf: "log_fault w1 = log_fault w"
    using shrunk_fields [OF shrunk_clear_profile [OF c]] by simp
  show ?thesis
  proof (cases res)
    case (Inl e)
    with except_log_append_raises [of n errs r w1 e w2] h lf
    have "log_fault w = Some e" by simp
    moreover have "clear_profiles ((n, p) # rest) errs w = (Inl e, w2)"
      using True c h Inl by simp
    moreover have "profile_errors w (n, p) \<noteq> []"
      using h Inl r True
      by (auto simp: except_log_append_def profile_errors.simps split: option.splits)
    ultimately show ?thesis using s t by blast
  next
    case (Inr errs1)
    have e1: "errs1 = errs @ profile_errors w (n, p)"
      using h Inr r True
      by (auto simp: except_log_append_def log_error_def Let_def profile_errors.simps
          split: option.splits)
    have lg: "log_fault w \<noteq> None \<longrightarrow> profile_errors w (n, p) = []"
      using h Inr r True lf
      by (auto simp: except_log_append_def log_error_def Let_def profile_errors.simps
          split: option.splits)
    have "clear_profiles ((n, p) # rest) errs w
        = clear_profiles rest (errs @ profile_errors w (n, p)) w2"
      using True c h Inr e1 by simp
    with s t lg show ?thesis by blast
  qed
qed

lemma exists_shrunk: "shrunk Q w w' \<Longrightarrow> exists w' p \<Longrightarrow> exists w p"
  using shrunk_lookup [of Q w w' p] by (auto simp: exists_def)

lemma shrunk_clear_profiles:
  "clear_profiles ps errs w = (r, w') \<Longrightarrow>
     shrunk (\<lambda>q. \<exists>(n, p) \<in> set ps. exists w p \<and> strict_prefix p q) w w'"
proof (induction ps arbitrary: errs w)
  case Nil
  then show ?case by (simp add: shrunk_refl)
next
  case (Cons a ps)
  obtain n p where a: "a = (n, p)" by (cases a)
  let ?Q = "\<lambda>q. \<exists>(n, p) \<in> set (a # ps). exists w p \<and> strict_prefix p q"
  from clear_profiles_step [of w p n ps errs] obtain w2 where
    s: "shrunk (\<lambda>q. exists w p \<and> strict_prefix p q) w w2"
    and d: "(\<exists>e. clear_profiles ((n, p) # ps) errs w = (Inl e, w2) \<and> log_fault w = Some e)
        \<or> (clear_profiles ((n, p) # ps) errs w
              = clear_profiles ps (errs @ profile_errors w (n, p)) w2
            \<and> (log_fault w \<noteq> None \<longrightarrow> profile_errors w (n, p) = []))"
    by blast
  have s1: "shrunk ?Q w w2"
    by (rule shrunk_mono [OF s]) (simp add: a)
  from d show ?case
  proof
    assume "\<exists>e. clear_profiles ((n, p) # ps) errs w = (Inl e, w2) \<and> log_fault w = Some e"
    with Cons.prems a have "w' = w2" by auto
    with s1 show ?thesis by simp
  next
    assume "clear_profiles ((n, p) # ps) errs w
              = clear_profiles ps (errs @ profile_errors w (n, p)) w2
            \<and> (log_fault w \<noteq> None \<longrightarrow> profile_errors w (n, p) = [])"
    with Cons.prems a have "clear_profiles ps (errs @ profile_errors w (n, p)) w2 = (r, w')"
      by simp
    from Cons.IH [OF this]
    have "shrunk (\<lambda>q. \<exists>(n, p) \<in> set ps. exists w2 p \<and> strict_prefix p q) w2 w'" .
    then have "shrunk ?Q w2 w'"
      by (rule shrunk_mono) (use exists_shrunk [OF s] in auto)
    with s1 show ?thesis by (rule shrunk_trans)
  qed
qed

lemma clear_profiles_raises:
  "clear_profiles ps errs w = (Inl e, w') \<Longrightarrow> log_fault w = Some e"
proof (induction ps arbitrary: errs w)
  case Nil
  then show ?case by simp
next
  case (Cons a ps)
  obtain n p where a: "a = (n, p)" by (cases a)
  from clear_profiles_step [of w p n ps errs] obtain w2 where
    s: "shrunk (\<lambda>q. exists w p \<and> strict_prefix p q) w w2"
    and d: "(\<exists>e. clear_profiles ((n, p) # ps) errs w = (Inl e, w2) \<and> log_fault w = Some e)
        \<or> (clear_profiles ((n, p) # ps) errs w
              = clear_profiles ps (errs @ profile_errors w (n, p)) w2
            \<and> (log_fault w \<noteq> None \<longrightarrow> profile_errors w (n, p) = []))"
    by blast
  from d show ?case
  proof
    assume "\<exists>e. clear_profiles ((n, p) # ps) errs w = (Inl e, w2) \<and> log_fault w = Some e"
    with Cons.prems a show ?thesis by auto
  next
    assume "clear_profiles ((n, p) # ps) errs w
              = clear_profiles ps (errs @ profile_errors w (n, p)) w2
            \<and> (log_fault w \<noteq> None \<longrightarrow> profile_errors w (n, p) = [])"
    with Cons.prems a have "clear_profiles ps (errs @ profile_errors w (n, p)) w2 = (Inl e, w')"
      by simp
    from Cons.IH [OF this] shrunk_fields [OF s] show ?thesis by simp
  qed
qed

lemma clear_profiles_returns:
  assumes "log_fault w = None"
  shows "\<exists>errs'. fst (clear_profiles ps errs w) = Inr errs'"
proof (cases "fst (clear_profiles ps errs w)")
  case (Inl e)
  then have "clear_profiles ps errs w = (Inl e, snd (clear_profiles ps errs w))"
    by (simp add: prod_eq_iff)
  from clear_profiles_raises [OF this] assms show ?thesis by simp
next
  case (Inr errs')
  then show ?thesis by simp
qed

text \<open>
  With separated profile paths the browsers do not interfere, so the returned errors
  are the errors of each browser in the environment at the start.
\<close>

lemma separated_same:
  assumes "shrunk (\<lambda>q. exists w p0 \<and> strict_prefix p0 q) w w2"
    and "list_all (\<lambda>(n, p). \<not> prefix p0 p \<and> \<not> prefix p p0) ps"
  shows "map (profile_errors w2) ps = map (profile_errors w) ps"
proof (rule map_cong [OF refl])
  fix x assume x: "x \<in> set ps"
  obtain n p where np: "x = (n, p)" by (cases x)
  with x assms(2) have i: "\<not> prefix p0 p" "\<not> prefix p p0"
    by (auto simp: list_all_iff)
  have "\<not> (exists w p0 \<and> strict_prefix p0 q)" if "prefix p q" for q
    using prefix_same_cases [OF that, of p0] i by (auto simp: strict_prefix_def)
  from profile_errors_same [OF assms(1) this] np
  show "profile_errors w2 x = profile_errors w x" by simp
qed

lemma clear_profiles_errors:
  "separated ps \<Longrightarrow> clear_profiles ps errs w = (Inr errs', w') \<Longrightarrow>
     errs' = errs @ concat (map (profile_errors w) ps)"
proof (induction ps arbitrary: errs w)
  case Nil
  then show ?case by simp
next
  case (Cons a ps)
  obtain n p where a: "a = (n, p)" by (cases a)
  from clear_profiles_step [of w p n ps errs] obtain w2 where
    s: "shrunk (\<lambda>q. exists w p \<and> strict_prefix p q) w w2"
    and d: "(\<exists>e. clear_profiles ((n, p) # ps) errs w = (Inl e, w2) \<and> log_fault w = Some e)
        \<or> (clear_profiles ((n, p) # ps) errs w
              = clear_profiles ps (errs @ profile_errors w (n, p)) w2
            \<and> (log_fault w \<noteq> None \<longrightarrow> profile_errors w (n, p) = []))"
    by blast
  from d Cons.prems(2) a
  have "clear_profiles ps (errs @ profile_errors w (n, p)) w2 = (Inr errs', w')"
    by auto
  moreover have "separated ps" using Cons.prems(1) a by simp
  ultimately have "errs' = (errs @ profile_errors w (n, p)) @ concat (map (profile_errors w2) ps)"
    by (rule Cons.IH [rotated])
  moreover have "map (profile_errors w2) ps = map (profile_errors w) ps"
    using Cons.prems(1) a by (intro separated_same [OF s]) simp
  ultimately show ?case by (simp add: a)
qed

lemma separated_profiles: "separated (BROWSER_PROFILES w)"
  by (simp add: BROWSER_PROFILES_def)

lemma filter_profile_errors:
  "filter (prefix (n @ '': '')) (profile_errors w (n, p)) = profile_errors w (n, p)"
  by (cases "exists w p"; cases "profile_fault w n p") (simp_all add: profile_errors.simps)


text \<open>
  A loop in which no browser has an error returns, whatever the log; and a loop that
  returned although the log has a fault has left no browser with an error.
\<close>

lemma clear_profiles_quiet_returns:
  "list_all (\<lambda>b. profile_errors w b = []) ps \<Longrightarrow> \<exists>errs'. fst (clear_profiles ps errs w) = Inr errs'"
proof (induction ps arbitrary: errs w)
  case Nil
  show ?case by simp
next
  case (Cons a ps)
  obtain n p where a: "a = (n, p)" by (cases a)
  from Cons.prems a have q: "profile_errors w (n, p) = []" by simp
  from clear_profiles_step [of w p n ps errs] q obtain w2 where
    s: "shrunk (\<lambda>q. exists w p \<and> strict_prefix p q) w w2"
    and d: "clear_profiles ((n, p) # ps) errs w
              = clear_profiles ps (errs @ profile_errors w (n, p)) w2"
    by blast
  have "list_all (\<lambda>b. profile_errors w2 b = []) ps"
    unfolding list_all_iff
  proof
    fix b assume b: "b \<in> set ps"
    obtain n' p' where np: "b = (n', p')" by (cases b)
    from b Cons.prems have "profile_errors w b = []" by (simp add: list_all_iff)
    with profile_errors_shrunk [OF s, of n' p'] np show "profile_errors w2 b = []" by simp
  qed
  from Cons.IH [OF this] d a show ?case by simp
qed

lemma clear_profiles_quiet:
  "clear_profiles ps errs w = (Inr errs', w') \<Longrightarrow> log_fault w \<noteq> None \<Longrightarrow>
     list_all (\<lambda>b. profile_errors w' b = []) ps"
proof (induction ps arbitrary: errs w)
  case Nil
  show ?case by simp
next
  case (Cons a ps)
  obtain n p where a: "a = (n, p)" by (cases a)
  from clear_profiles_step [of w p n ps errs] Cons.prems a obtain w2 where
    s: "shrunk (\<lambda>q. exists w p \<and> strict_prefix p q) w w2"
    and d: "clear_profiles ps (errs @ profile_errors w (n, p)) w2 = (Inr errs', w')"
    and q: "profile_errors w (n, p) = []"
    by auto
  have "log_fault w2 \<noteq> None" using shrunk_fields [OF s] Cons.prems(2) by simp
  from Cons.IH [OF d this] have r: "list_all (\<lambda>b. profile_errors w' b = []) ps" .
  from shrunk_clear_profiles [OF Cons.prems(1)] a
  have "profile_errors w' (n, p) = []"
    by (intro profile_errors_shrunk [OF _ q])
  with r a show ?case by simp
qed

text \<open>The errors of one browser are picked out of the result by its name.\<close>

lemma profile_errors_foreign:
  assumes "\<not> prefix n n'" and "\<not> prefix n' n"
  shows "filter (prefix (n @ '': '')) (profile_errors w (n', p')) = []"
proof -
  have "\<not> prefix (n @ '': '') e" if "e \<in> set (profile_errors w (n', p'))" for e
  proof
    assume "prefix (n @ '': '') e"
    then have "prefix n e" by (rule append_prefixD)
    moreover from profile_errors_prefix [OF that] have "prefix n' e" by (rule append_prefixD)
    ultimately show False using prefix_same_cases assms by blast
  qed
  then show ?thesis by (simp add: filter_empty_conv)
qed

lemma errors_of_browser:
  assumes "(n, p) \<in> set (BROWSER_PROFILES w)"
  shows "filter (prefix (n @ '': '')) (concat (map (profile_errors w0) (BROWSER_PROFILES w)))
     = profile_errors w0 (n, p)"
proof -
  define c where "c = home w @ [''AppData'', ''Local'', ''Google'', ''Chrome'', ''User Data'', ''Default'']"
  define e where "e = home w @ [''AppData'', ''Local'', ''Microsoft'', ''Edge'', ''User Data'', ''Default'']"
  define f where "f = home w @ [''AppData'', ''Roaming'', ''Mozilla'', ''Firefox'', ''Profiles'']"
  have b: "BROWSER_PROFILES w = [(''chrome'', c), (''edge'', e), (''firefox'', f)]"
    by (simp add: BROWSER_PROFILES_def c_def e_def f_def)
  from assms b consider "n = ''chrome''" "p = c" | "n = ''edge''" "p = e" | "n = ''firefox''" "p = f"
    by auto
  then show ?thesis
  proof cases
    case 1
    have "filter (prefix (n @ '': '')) (profile_errors w0 (''edge'', e)) = []"
      "filter (prefix (n @ '': '')) (profile_errors w0 (''firefox'', f)) = []"
      by (rule profile_errors_foreign; simp add: 1)+
    with filter_profile_errors [of n w0 p] show ?thesis by (simp add: b 1)
  next
    case 2
    have "filter (prefix (n @ '': '')) (profile_errors w0 (''chrome'', c)) = []"
      "filter (prefix (n @ '': '')) (profile_errors w0 (''firefox'', f)) = []"
      by (rule profile_errors_foreign; simp add: 2)+
    with filter_profile_errors [of n w0 p] show ?thesis by (simp add: b 2)
  next
    case 3
    have "filter (prefix (n @ '': '')) (profile_errors w0 (''chrome'', c)) = []"
      "filter (prefix (n @ '': '')) (profile_errors w0 (''edge'', e)) = []"
      by (rule profile_errors_foreign; simp add: 3)+
    with filter_profile_errors [of n w0 p] show ?thesis by (simp add: b 3)
  qed
qed


subsection \<open>The operation\<close>

lemma separated_members:
  "separated ps \<Longrightarrow> (n, p) \<in> set ps \<Longrightarrow> (n', p') \<in> set ps \<Longrightarrow>
     (n, p) = (n', p') \<or> (\<not> prefix p p' \<and> \<not> prefix p' p)"
  by (induction ps) (auto simp: list_all_iff)

lemma clear_browser_data_raises:
  "fst (clear_browser_data w) = Inl e \<Longrightarrow> log_fault w = Some e"
  using clear_profiles_raises [of "BROWSER_PROFILES w" "[]" w e "snd (clear_browser_data w)"]
  by (simp add: clear_browser_data_def prod_eq_iff)

lemma clear_browser_data_returned:
  assumes "fst (clear_browser_data w) = Inr errs"
  shows "errs = concat (map (profile_errors w) (BROWSER_PROFILES w))"
  using clear_profiles_errors [OF separated_profiles, of w "[]" w errs "snd (clear_browser_data w)"]
    assms
  by (simp add: clear_browser_data_def prod_eq_iff)

lemma clear_browser_data_shrunk:
  "shrunk (\<lambda>q. \<exists>(n, p) \<in> set (BROWSER_PROFILES w). exists w p \<and> strict_prefix p q)
     w (snd (clear_browser_data w))"
  using shrunk_clear_profiles [of "BROWSER_PROFILES w" "[]" w
      "fst (clear_browser_data w)" "snd (clear_browser_data w)"]
  by (simp add: clear_browser_data_def)





text \<open>
  C5.  A configured browser whose profile path does not exist contributes no error
  string to what \<^verbatim>\<open>clear_browser_data\<close> returns, and the file system at and below
  its path is after the call what it was before.
\<close>

theorem clear_browser_data_absent_profile:
  assumes "(n, p) \<in> set (BROWSER_PROFILES w)" and "\<not> exists w p"
  shows "(\<forall>errs. fst (clear_browser_data w) = Inr errs \<longrightarrow>
            filter (prefix (n @ '': '')) errs = [])
    \<and> filter (\<lambda>(q, k). prefix p q) (fs (snd (clear_browser_data w)))
        = filter (\<lambda>(q, k). prefix p q) (fs w)"
proof -
  have pe: "profile_errors w (n, p) = []"
    using assms(2) by (simp add: profile_errors.simps)
  have "filter (prefix (n @ '': '')) errs = []"
    if "fst (clear_browser_data w) = Inr errs" for errs
    using clear_browser_data_returned [OF that] errors_of_browser [OF assms(1), of w] pe
    by simp
  moreover have "filter (\<lambda>(q, k). prefix p q) (fs (snd (clear_browser_data w)))
        = filter (\<lambda>(q, k). prefix p q) (fs w)"
  proof (rule shrunk_under [OF clear_browser_data_shrunk])
    fix q assume q: "prefix p q"
    show "\<not> (\<exists>(n', p') \<in> set (BROWSER_PROFILES w). exists w p' \<and> strict_prefix p' q)"
    proof
      assume "\<exists>(n', p') \<in> set (BROWSER_PROFILES w). exists w p' \<and> strict_prefix p' q"
      then obtain n' p' where m: "(n', p') \<in> set (BROWSER_PROFILES w)"
        and e: "exists w p'" and s: "strict_prefix p' q"
        by blast
      from e assms(2) have "p \<noteq> p'" by auto
      with separated_members [OF separated_profiles assms(1) m]
      have "\<not> prefix p p'" "\<not> prefix p' p" by auto
      moreover from s have "prefix p' q" by (simp add: strict_prefix_def)
      ultimately show False using prefix_same_cases [OF q] by blast
    qed
  qed
  ultimately show ?thesis by blast
qed

theorem clear_browser_data_absent_profile_witness:
  "(''edge'', ex_edge) \<in> set (BROWSER_PROFILES ex_chrome_only)
   \<and> \<not> exists ex_chrome_only ex_edge
   \<and> fst (clear_browser_data ex_chrome_only) = Inr []
   \<and> filter (\<lambda>(q, k). prefix ex_edge q) (fs (snd (clear_browser_data ex_chrome_only)))
       = filter (\<lambda>(q, k). prefix ex_edge q) (fs ex_chrome_only)
   \<and> fs (snd (clear_browser_data ex_chrome_only)) = [(ex_chrome, Dir)]"
  using clear_browser_data_absent_profile [of "''edge''" ex_edge ex_chrome_only]
  by (simp add: ex_chrome_only_def ex_linux_def ex_chrome_def ex_edge_def
      clear_browser_data_def BROWSER_PROFILES_def except_log_append_def clear_profile_def
      artifact_entries_def isdir_def exists_def lookup_def os_remove_def log_error_def Let_def
      rmtree_def stuck_def fs_drop_def)

text \<open>
  C6.  The claim: when a first call fully clears a browser's artifacts, a second call
  returns no error for that browser.  The listing of the Firefox profile root is done
  anew in every call (line 92), after the four entries: where it fails, the first call
  removes \<^verbatim>\<open>History\<close> and the cache, so that nothing but the profile root is left, and
  the second call reports the failing listing again.
\<close>

theorem clear_browser_data_cleared_yet_failing:
  "exists ex_firefox_unlistable (ex_firefox @ [''History''])
   \<and> exists ex_firefox_unlistable (ex_firefox @ [''Cache''])
   \<and> fs (snd (clear_browser_data ex_firefox_unlistable)) = [(ex_firefox, Dir)]
   \<and> fst (clear_browser_data (snd (clear_browser_data ex_firefox_unlistable)))
       = Inr [''firefox: [Errno 13] Permission denied'']"
  by (simp add: ex_firefox_unlistable_def ex_linux_def ex_firefox_def
      access_denied_def clear_browser_data_def BROWSER_PROFILES_def except_log_append_def
      clear_profile_def artifact_entries_def isdir_def exists_def lookup_def os_remove_def
      log_error_def Let_def rmtree_def stuck_def fs_drop_def listdir_def)

text \<open>
  C6, amended.  If a first call of \<^verbatim>\<open>clear_browser_data\<close> returns without an error
  for a browser, then in the world it leaves behind that browser contributes no error:
  an immediately following second call returns, and returns no error for it.
\<close>

theorem clear_browser_data_idempotent:
  assumes "(n, p) \<in> set (BROWSER_PROFILES w)"
    and "fst (clear_browser_data w) = Inr errs1"
    and "filter (prefix (n @ '': '')) errs1 = []"
  shows "profile_errors (snd (clear_browser_data w)) (n, p) = []
    \<and> (\<forall>errs2. fst (clear_browser_data (snd (clear_browser_data w))) = Inr errs2 \<longrightarrow>
          filter (prefix (n @ '': '')) errs2 = [])
    \<and> (\<exists>errs2. fst (clear_browser_data (snd (clear_browser_data w))) = Inr errs2)"
proof -
  define w1 where "w1 = snd (clear_browser_data w)"
  have s: "shrunk (\<lambda>q. \<exists>(n, p) \<in> set (BROWSER_PROFILES w). exists w p \<and> strict_prefix p q) w w1"
    unfolding w1_def by (rule clear_browser_data_shrunk)
  have b: "BROWSER_PROFILES w1 = BROWSER_PROFILES w"
    using shrunk_fields [OF s] by (simp add: BROWSER_PROFILES_def)
  have "profile_errors w (n, p) = []"
    using clear_browser_data_returned [OF assms(2)] errors_of_browser [OF assms(1), of w] assms(3)
    by simp
  from profile_errors_shrunk [OF s this] have pe: "profile_errors w1 (n, p) = []" .
  have "filter (prefix (n @ '': '')) errs2 = []"
    if "fst (clear_browser_data w1) = Inr errs2" for errs2
    using clear_browser_data_returned [OF that] errors_of_browser [OF assms(1), of w1] pe b
    by simp
  moreover have "\<exists>errs2. fst (clear_browser_data w1) = Inr errs2"
  proof (cases "log_fault w")
    case None
    with clear_profiles_returns [of w1 "BROWSER_PROFILES w1" "[]"] shrunk_fields [OF s]
    show ?thesis by (simp add: clear_browser_data_def)
  next
    case (Some x)
    have "clear_profiles (BROWSER_PROFILES w) [] w = (Inr errs1, w1)"
      using assms(2) by (simp add: clear_browser_data_def w1_def prod_eq_iff)
    from clear_profiles_quiet [OF this] Some
    have "list_all (\<lambda>b. profile_errors w1 b = []) (BROWSER_PROFILES w1)"
      by (simp add: b)
    from clear_profiles_quiet_returns [OF this, of "[]"]
    show ?thesis by (simp add: clear_browser_data_def)
  qed
  ultimately show ?thesis using pe unfolding w1_def by blast
qed

theorem clear_browser_data_idempotent_witness:
  "(''chrome'', ex_chrome) \<in> set (BROWSER_PROFILES ex_chrome_only)
   \<and> fst (clear_browser_data ex_chrome_only) = Inr []
   \<and> exists ex_chrome_only (ex_chrome @ [''History''])
   \<and> \<not> exists (snd (clear_browser_data ex_chrome_only)) (ex_chrome @ [''History''])
   \<and> fst (clear_browser_data (snd (clear_browser_data ex_chrome_only))) = Inr []"
  using clear_browser_data_idempotent [of "''chrome''" ex_chrome ex_chrome_only "[]"]
  by (simp add: ex_chrome_only_def ex_linux_def ex_chrome_def ex_edge_def
      clear_browser_data_def BROWSER_PROFILES_def except_log_append_def clear_profile_def
      artifact_entries_def isdir_def exists_def lookup_def os_remove_def log_error_def Let_def
      rmtree_def stuck_def fs_drop_def)

end
